theory Spec2Isabelle
  imports Main "HOL-Library.Sublist"
begin

section \<open>The one-shot prompt generator: data model\<close>

text \<open>
  The script \<^verbatim>\<open>scripts/one_shot_prompt_generator.py\<close> is embedded function by function.
  A Python \<^verbatim>\<open>str\<close> is a \<^typ>\<open>string\<close>; a \<^typ>\<open>char\<close> stands for a code point below 256.
  A \<^verbatim>\<open>dict\<close> is an association list in insertion order. Exceptions are values of the
  type \<open>error\<close>.
\<close>

record question =
  key :: string
  prompt :: string
  hint :: string

datatype error =
    SystemExit string
  | ValueError string
  | KeyError string
  | EOFError

text \<open>
  What \<^verbatim>\<open>json.loads\<close> can return. A float is carried as its text; its value is never
  inspected by the script. An object is the decoded \<^verbatim>\<open>dict\<close>, its items in insertion order.
\<close>

datatype json =
    JNull
  | JBool bool
  | JInt int
  | JFloat string
  | JString string
  | JArray "json list"
  | JObject "(string \<times> json) list"

text \<open>What one run of \<^verbatim>\<open>main\<close> leaves behind: the text written to standard output, the
  lines of standard input not read, and the exception that ended the run, if any.\<close>

record run =
  stdout :: string
  stdin_rest :: "string list"
  status :: "error option"

definition exit_code :: "run \<Rightarrow> nat" where
  "exit_code r = (case status r of None \<Rightarrow> 0 | Some e \<Rightarrow> 1)"

subsection \<open>The question catalog\<close>

definition CORE_QUESTIONS :: "question list" where
  "CORE_QUESTIONS =
    [\<lparr>key = ''goal'',
      prompt = ''What should the final deliverable accomplish?'',
      hint = ''Define success in one sentence.''\<rparr>,
     \<lparr>key = ''audience'',
      prompt = ''Who is the target user or audience?'',
      hint = ''Be specific (e.g., junior developers, finance analysts, parents).''\<rparr>,
     \<lparr>key = ''output_format'',
      prompt = ''What output format do you want from the AI?'',
      hint = ''Examples: bullet list, JSON, markdown table, code files.''\<rparr>,
     \<lparr>key = ''constraints'',
      prompt = ''What hard constraints must be followed?'',
      hint = ''Include time, budget, stack, legal, style, or platform limits.''\<rparr>,
     \<lparr>key = ''quality_bar'',
      prompt = ''How should quality be measured?'',
      hint = ''Define acceptance criteria or test expectations.''\<rparr>,
     \<lparr>key = ''non_goals'',
      prompt = ''What should explicitly NOT be included?'',
      hint = ''List boundaries to avoid scope creep.''\<rparr>]"

definition EXTRA_QUESTIONS :: "question list" where
  "EXTRA_QUESTIONS =
    [\<lparr>key = ''data_inputs'',
      prompt = ''What inputs/data should the solution use?'',
      hint = ''Mention sources, schema, sample records, or allowed assumptions.''\<rparr>,
     \<lparr>key = ''edge_cases'',
      prompt = ''What edge cases or failure modes must be handled?'',
      hint = ''Think null values, outages, security, scaling, ambiguous user input.''\<rparr>,
     \<lparr>key = ''tone'',
      prompt = ''What tone/style should the response use?'',
      hint = ''Examples: concise technical, friendly coach, executive summary.''\<rparr>,
     \<lparr>key = ''examples'',
      prompt = ''Do you have examples of ideal output?'',
      hint = ''Optional but high-leverage.''\<rparr>]"

definition KEYWORDS :: "(string \<times> string list) list" where
  "KEYWORDS =
    [(''web'', [''ui_framework'', ''deployment_target'']),
     (''api'', [''api_style'', ''auth_requirements'']),
     (''data'', [''data_volume'', ''privacy_requirements'']),
     (''agent'', [''tool_access'', ''memory_strategy''])]"

definition KEYWORD_QUESTIONS :: "(string \<times> question) list" where
  "KEYWORD_QUESTIONS =
    [(''ui_framework'',
      \<lparr>key = ''ui_framework'',
       prompt = ''Which UI framework or frontend stack should be used?'',
       hint = ''E.g., React, Vue, Svelte, plain HTML/CSS.''\<rparr>),
     (''deployment_target'',
      \<lparr>key = ''deployment_target'',
       prompt = ''Where will this run in production?'',
       hint = ''E.g., Vercel, AWS Lambda, on-prem, local desktop.''\<rparr>),
     (''api_style'',
      \<lparr>key = ''api_style'',
       prompt = ''What API style is required?'',
       hint = ''REST, GraphQL, gRPC, webhook-first, etc.''\<rparr>),
     (''auth_requirements'',
      \<lparr>key = ''auth_requirements'',
       prompt = ''What authentication/authorization requirements exist?'',
       hint = ''OAuth, API keys, RBAC, SSO, public/no auth.''\<rparr>),
     (''data_volume'',
      \<lparr>key = ''data_volume'',
       prompt = ''What data scale should the system handle?'',
       hint = ''Approx rows/events/users and expected growth.''\<rparr>),
     (''privacy_requirements'',
      \<lparr>key = ''privacy_requirements'',
       prompt = ''Any compliance or privacy requirements?'',
       hint = ''PII handling, GDPR, HIPAA, retention limits, audit trails.''\<rparr>),
     (''tool_access'',
      \<lparr>key = ''tool_access'',
       prompt = ''What tools can the agent call?'',
       hint = ''Browser, filesystem, code interpreter, internal APIs, none.''\<rparr>),
     (''memory_strategy'',
      \<lparr>key = ''memory_strategy'',
       prompt = ''Should the agent maintain memory between sessions?'',
       hint = ''No memory, short-term only, long-term profile, vector DB, etc.''\<rparr>)]"

subsection \<open>Python string and dictionary primitives\<close>

text \<open>\<^verbatim>\<open>str.isspace\<close> on one code point below 256; \<^verbatim>\<open>str.strip()\<close> and the pattern
  \<^verbatim>\<open>\s\<close> of \<^verbatim>\<open>re\<close> both use this class.\<close>

definition isspace :: "char \<Rightarrow> bool" where
  "isspace c =
     (let n = (of_char c :: nat)
      in (9 \<le> n \<and> n \<le> 13) \<or> (28 \<le> n \<and> n \<le> 32) \<or> n = 133 \<or> n = 160)"

text \<open>\<^verbatim>\<open>str.lower\<close> on one code point below 256: the ASCII capitals and the Latin-1
  capitals (U+00C0 to U+00DE without the multiplication sign U+00D7) move up by 32.\<close>

definition lower_char :: "char \<Rightarrow> char" where
  "lower_char c =
     (let n = (of_char c :: nat)
      in if (65 \<le> n \<and> n \<le> 90) \<or> (192 \<le> n \<and> n \<le> 214) \<or> (216 \<le> n \<and> n \<le> 222)
         then char_of (n + 32) else c)"

definition lower :: "string \<Rightarrow> string" where
  "lower s = map lower_char s"

definition strip :: "string \<Rightarrow> string" where
  "strip text = rev (dropWhile isspace (rev (dropWhile isspace text)))"

text \<open>\<^verbatim>\<open>re.sub(r"\s+", " ", text)\<close>: every maximal run of whitespace becomes one space.\<close>

function re_sub_spaces :: "string \<Rightarrow> string" where
  "re_sub_spaces [] = []"
| "re_sub_spaces (c # cs) =
     (if isspace c then CHR '' '' # re_sub_spaces (dropWhile isspace cs)
      else c # re_sub_spaces cs)"
  by pat_completeness auto
termination
  by (relation "measure length") (auto simp: length_dropWhile_le less_Suc_eq_le)

text \<open>\<^verbatim>\<open>sub in s\<close> on strings.\<close>

fun py_in :: "string \<Rightarrow> string \<Rightarrow> bool" where
  "py_in sub [] = (sub = [])"
| "py_in sub (c # cs) = (prefix sub (c # cs) \<or> py_in sub cs)"

text \<open>\<^verbatim>\<open>sep.join(parts)\<close>.\<close>

fun join :: "string \<Rightarrow> string list \<Rightarrow> string" where
  "join sep [] = []"
| "join sep [x] = x"
| "join sep (x # y # ys) = x @ sep @ join sep (y # ys)"

text \<open>\<^verbatim>\<open>d[k] = v\<close>: an existing key keeps its place and takes the new value, a new key
  goes to the end. \<^verbatim>\<open>d.get(k, default)\<close>.\<close>

fun dict_set :: "(string \<times> 'v) list \<Rightarrow> string \<Rightarrow> 'v \<Rightarrow> (string \<times> 'v) list" where
  "dict_set [] k v = [(k, v)]"
| "dict_set ((k', v') # d) k v =
     (if k' = k then (k', v) # d else (k', v') # dict_set d k v)"

definition dict_get :: "(string \<times> 'v) list \<Rightarrow> string \<Rightarrow> 'v \<Rightarrow> 'v" where
  "dict_get d k dflt = (case map_of d k of None \<Rightarrow> dflt | Some v \<Rightarrow> v)"

text \<open>\<^verbatim>\<open>str(v)\<close> on a decoded value: a string is itself; the text of any other value is
  the interpreter's, taken as the parameter \<open>repr\<close>.\<close>

definition py_str :: "(json \<Rightarrow> string) \<Rightarrow> json \<Rightarrow> string" where
  "py_str repr v = (case v of JString s \<Rightarrow> s | _ \<Rightarrow> repr v)"

section \<open>The functions of the script\<close>

definition normalize :: "string \<Rightarrow> string" where
  "normalize text = re_sub_spaces (strip text)"

text \<open>The first loop of \<^verbatim>\<open>choose_keyword_questions\<close>, over the items of the keyword table.\<close>

fun select_keys :: "string \<Rightarrow> (string \<times> string list) list \<Rightarrow> string list \<Rightarrow> string list" where
  "select_keys summary_l [] selected_keys = selected_keys"
| "select_keys summary_l ((keyword, keys) # rest) selected_keys =
     select_keys summary_l rest
       (if py_in keyword summary_l then selected_keys @ keys else selected_keys)"

text \<open>The second loop: a key already seen is skipped; a key missing from the registry
  raises \<^verbatim>\<open>KeyError\<close>.\<close>

fun dedupe_keys :: "(string \<times> question) list \<Rightarrow> string list \<Rightarrow> string set \<Rightarrow> question list
    \<Rightarrow> error + question list" where
  "dedupe_keys registry [] seen result = Inr result"
| "dedupe_keys registry (k # ks) seen result =
     (if k \<in> seen then dedupe_keys registry ks seen result
      else (case map_of registry k of
              None \<Rightarrow> Inl (KeyError k)
            | Some q \<Rightarrow> dedupe_keys registry ks (insert k seen) (result @ [q])))"

definition choose_keyword_questions :: "string \<Rightarrow> error + question list" where
  "choose_keyword_questions summary =
     (let summary_l = lower summary;
          selected_keys = select_keys summary_l KEYWORDS []
      in dedupe_keys KEYWORD_QUESTIONS selected_keys {} [])"

definition build_question_set :: "string \<Rightarrow> error + question list" where
  "build_question_set summary =
     (case choose_keyword_questions summary of
        Inl e \<Rightarrow> Inl e
      | Inr chosen \<Rightarrow> Inr (CORE_QUESTIONS @ chosen @ EXTRA_QUESTIONS))"

text \<open>The newline, and the bullet U+2022 as the three bytes written for it.\<close>

abbreviation NL :: char where
  "NL \<equiv> CHR 0x0A"

definition bullet :: string where
  "bullet = [CHR 0xE2, CHR 0x80, CHR 0xA2]"

text \<open>\<^verbatim>\<open>ask_questions\<close>: two lines are printed and the prompt of \<^verbatim>\<open>input\<close> written for
  each question, then one line is read; at the end of input \<^verbatim>\<open>input\<close> raises
  \<^verbatim>\<open>EOFError\<close>. The state is the text written so far, the unread lines and the answers.\<close>

fun ask_questions :: "question list \<Rightarrow> string \<Rightarrow> string list \<Rightarrow> (string \<times> string) list
    \<Rightarrow> string \<times> string list \<times> (error + (string \<times> string) list)" where
  "ask_questions [] out inp answers = (out, inp, Inr answers)"
| "ask_questions (q # qs) out inp answers =
     (let out' = out @ [NL] @ bullet @ '' '' @ prompt q @ [NL]
                     @ ''  Hint: '' @ hint q @ [NL]
                     @ ''  Answer: ''
      in case inp of
           [] \<Rightarrow> (out', [], Inl EOFError)
         | line # rest \<Rightarrow>
             (let v = strip line
              in ask_questions qs out' rest
                   (dict_set answers (key q) (if v = [] then ''Not specified'' else v))))"

text \<open>\<^verbatim>\<open>compose_prompt\<close>.\<close>

definition context_lines :: "(string \<times> string) list \<Rightarrow> string" where
  "context_lines answers = join [NL] (map (\<lambda>(k, v). ''- '' @ k @ '': '' @ v) answers)"

definition compose_prompt :: "string \<Rightarrow> (string \<times> string) list \<Rightarrow> string" where
  "compose_prompt summary answers =
     join [NL, NL]
       [''You are an elite product + engineering execution assistant.'',
        ''## Project Summary'',
        summary,
        ''## Clarified Requirements'',
        context_lines answers,
        ''## Your Task'',
        ''Produce the best possible solution for this request in one response.'',
        ''### Must Do'',
        ''1. Restate the objective and constraints in a compact spec.'',
        ''2. Propose an execution plan optimized for speed and quality.'',
        ''3. Deliver the requested output in the required format.'',
        ''4. Address edge cases, risks, and trade-offs explicitly.'',
        ''5. Include validation steps/tests against the quality bar.'',
        ''6. Respect non-goals and avoid unnecessary scope expansion.'',
        ''### Output Requirements'',
        ''- Be concrete and implementation-ready.'',
        ''- Use assumptions only when unavoidable, and label them clearly.'',
        ''- If information is missing, provide a \"best default\" and explain why.'',
        ''- Keep the response efficient, high-signal, and free of fluff.'']"

text \<open>The comprehension that builds \<^verbatim>\<open>final_answers\<close> in \<^verbatim>\<open>main\<close>: one assignment per
  question, in order.\<close>

fun final_answers_loop :: "(json \<Rightarrow> string) \<Rightarrow> (string \<times> json) list \<Rightarrow> question list
    \<Rightarrow> (string \<times> string) list \<Rightarrow> (string \<times> string) list" where
  "final_answers_loop repr answers [] acc = acc"
| "final_answers_loop repr answers (q # qs) acc =
     final_answers_loop repr answers qs
       (dict_set acc (key q)
          (normalize (py_str repr (dict_get answers (key q) (JString ''Not specified'')))))"

definition final_answers :: "(json \<Rightarrow> string) \<Rightarrow> (string \<times> json) list \<Rightarrow> question list
    \<Rightarrow> (string \<times> string) list" where
  "final_answers repr answers questions = final_answers_loop repr answers questions []"

text \<open>The \<^verbatim>\<open>try\<close> block of \<^verbatim>\<open>main\<close>. The decoder \<^verbatim>\<open>json.loads\<close> is the parameter
  \<open>json_loads\<close>: \<open>Inl msg\<close> is a \<^verbatim>\<open>JSONDecodeError\<close> with text \<open>msg\<close>. The handler names
  \<^verbatim>\<open>JSONDecodeError\<close> only, so the \<^verbatim>\<open>ValueError\<close> raised for a value that is not a
  \<^verbatim>\<open>dict\<close> leaves the block as it is. Any other exception of the decoder is outside the
  model.\<close>

definition load_answers :: "(string \<Rightarrow> string + json) \<Rightarrow> string \<Rightarrow> error + (string \<times> json) list" where
  "load_answers json_loads answers_json =
     (case json_loads answers_json of
        Inl msg \<Rightarrow> Inl (SystemExit (''Invalid JSON for --answers-json: '' @ msg))
      | Inr (JObject answers) \<Rightarrow> Inr answers
      | Inr other \<Rightarrow> Inl (ValueError ''answers-json must decode to an object''))"

definition banner :: string where
  "banner = [NL] @ replicate 80 CHR ''='' @ [NL]
            @ ''PERFECT 1-SHOT PROMPT'' @ [NL]
            @ replicate 80 CHR ''='' @ [NL]"

text \<open>The last five statements of \<^verbatim>\<open>main\<close>, run once the answers are there.\<close>

definition finish :: "(json \<Rightarrow> string) \<Rightarrow> string \<Rightarrow> question list \<Rightarrow> string \<Rightarrow> string list
    \<Rightarrow> (string \<times> json) list \<Rightarrow> run" where
  "finish repr summary questions out inp answers =
     (let final = final_answers repr answers questions;
          prompt = compose_prompt summary final
      in \<lparr>stdout = out @ banner @ prompt @ [NL], stdin_rest = inp, status = None\<rparr>)"

text \<open>\<^verbatim>\<open>main\<close>, after \<^verbatim>\<open>parse_args\<close>: \<open>summary_arg\<close> is \<^verbatim>\<open>args.summary\<close>, \<open>answers_json\<close> is
  \<^verbatim>\<open>args.answers_json\<close> (\<open>None\<close> when the option is not given), \<open>inp\<close> the lines of
  standard input. An empty \<^verbatim>\<open>--answers-json\<close> is falsy and selects the interactive
  branch.\<close>

definition main :: "(string \<Rightarrow> string + json) \<Rightarrow> (json \<Rightarrow> string) \<Rightarrow> string \<Rightarrow> string option
    \<Rightarrow> string list \<Rightarrow> run" where
  "main json_loads repr summary_arg answers_json inp =
     (let summary = normalize summary_arg
      in if summary = []
         then \<lparr>stdout = [], stdin_rest = inp,
               status = Some (SystemExit ''Summary cannot be empty.'')\<rparr>
         else (case build_question_set summary of
                 Inl e \<Rightarrow> \<lparr>stdout = [], stdin_rest = inp, status = Some e\<rparr>
               | Inr questions \<Rightarrow>
                   (if answers_json = None \<or> answers_json = Some []
                    then (case ask_questions questions
                                 (''I will ask targeted questions to sharpen your brief before generating a one-shot prompt.'' @ [NL])
                                 inp []
                          of (out, rest, Inl e) \<Rightarrow>
                               \<lparr>stdout = out, stdin_rest = rest, status = Some e\<rparr>
                           | (out, rest, Inr answers) \<Rightarrow>
                               finish repr summary questions out rest
                                 (map (\<lambda>(k, v). (k, JString v)) answers))
                    else (case load_answers json_loads (the answers_json) of
                            Inl e \<Rightarrow> \<lparr>stdout = [], stdin_rest = inp, status = Some e\<rparr>
                          | Inr answers \<Rightarrow> finish repr summary questions [] inp answers))))"

section \<open>Notions of the specification\<close>

text \<open>A keyword occurs in a summary as a case-insensitive substring.\<close>

definition contains_ci :: "string \<Rightarrow> string \<Rightarrow> bool" where
  "contains_ci keyword s = (\<exists>pre w post. s = pre @ w @ post \<and> lower w = lower keyword)"

text \<open>Deduplication that keeps the first occurrence of every element.\<close>

fun keep_first :: "'a list \<Rightarrow> 'a list" where
  "keep_first [] = []"
| "keep_first (x # xs) = x # keep_first (filter (\<lambda>y. y \<noteq> x) xs)"

text \<open>The supplemental keys of the matched keywords, in the order of the table.\<close>

definition matched_keys :: "string \<Rightarrow> (string \<times> string list) list \<Rightarrow> string list" where
  "matched_keys summary table =
     concat (map snd (filter (\<lambda>(keyword, keys). contains_ci keyword summary) table))"

text \<open>No two whitespace characters stand next to each other.\<close>

fun single_spaced :: "string \<Rightarrow> bool" where
  "single_spaced [] = True"
| "single_spaced [c] = True"
| "single_spaced (a # b # cs) = ((isspace a \<longrightarrow> \<not> isspace b) \<and> single_spaced (b # cs))"

text \<open>\<^verbatim>\<open>s.split("\n")\<close>: the lines of a text.\<close>

fun split_lines :: "string \<Rightarrow> string list" where
  "split_lines [] = [[]]"
| "split_lines (c # cs) =
     (if c = NL then [] # split_lines cs
      else (case split_lines cs of [] \<Rightarrow> [[c]] | l # ls \<Rightarrow> (c # l) # ls))"

text \<open>One line of the section "Clarified Requirements".\<close>

definition requirement_line :: "string \<Rightarrow> string \<Rightarrow> string" where
  "requirement_line k v = ''- '' @ k @ '': '' @ v"

text \<open>The answer recorded for a key in batch mode: the sentinel when the payload has no
  entry for the key, otherwise the normalized text of the entry.\<close>

definition batch_value :: "(json \<Rightarrow> string) \<Rightarrow> (string \<times> json) list \<Rightarrow> string \<Rightarrow> string" where
  "batch_value repr answers k =
     (case map_of answers k of
        None \<Rightarrow> ''Not specified''
      | Some v \<Rightarrow> normalize (py_str repr v))"

text \<open>Two payloads agree on a list of keys: for every key, both lack it or both hold
  values with the same normalized text.\<close>

definition agree_on :: "(json \<Rightarrow> string) \<Rightarrow> string list \<Rightarrow> (string \<times> json) list
    \<Rightarrow> (string \<times> json) list \<Rightarrow> bool" where
  "agree_on repr keys answers1 answers2 =
     list_all (\<lambda>k. map_option (\<lambda>v. normalize (py_str repr v)) (map_of answers1 k)
                  = map_option (\<lambda>v. normalize (py_str repr v)) (map_of answers2 k)) keys"

subsection \<open>Values for the closed examples\<close>

text \<open>A decoder that agrees with \<^verbatim>\<open>json.loads\<close> on the payloads of the examples below:
  an empty array, three objects, and, through the last branch, the empty string and the text
  \<^verbatim>\<open>not json\<close>, for both of which \<^verbatim>\<open>json.loads\<close> raises \<^verbatim>\<open>JSONDecodeError\<close> with this
  message. No other payload is used.\<close>

definition json_loads_sample :: "string \<Rightarrow> string + json" where
  "json_loads_sample s =
     (if s = ''[]'' then Inr (JArray [])
      else if s = ''{\"goal\": \"\"}'' then Inr (JObject [(''goal'', JString [])])
      else if s = ''{\"goal\": \"Ship  it\", \"owner\": \"me\"}''
        then Inr (JObject [(''goal'', JString ''Ship  it''), (''owner'', JString ''me'')])
      else if s = ''{\"goal\": \"Ship it\"}'' then Inr (JObject [(''goal'', JString ''Ship it'')])
      else Inl ''Expecting value: line 1 column 1 (char 0)'')"

text \<open>The examples hold string values only, for which \<^verbatim>\<open>str\<close> asks for no rendering.\<close>

definition no_repr :: "json \<Rightarrow> string" where
  "no_repr v = []"

section \<open>Normalization\<close>

lemma re_sub_spaces_space_is_blank:
  "c \<in> set (re_sub_spaces xs) \<Longrightarrow> isspace c \<Longrightarrow> c = CHR '' ''"
proof (induction xs rule: re_sub_spaces.induct)
  case 1
  then show ?case by simp
next
  case (2 c cs)
  then show ?case by (auto split: if_splits)
qed

lemma hd_dropWhile_not_space:
  "dropWhile isspace cs \<noteq> [] \<Longrightarrow> \<not> isspace (hd (dropWhile isspace cs))"
  using hd_dropWhile by blast

lemma re_sub_spaces_Nil_iff [simp]: "re_sub_spaces xs = [] \<longleftrightarrow> xs = []"
  by (cases xs) auto

lemma hd_re_sub_spaces:
  "xs \<noteq> [] \<Longrightarrow> hd (re_sub_spaces xs) = (if isspace (hd xs) then CHR '' '' else hd xs)"
  by (cases xs) auto

lemma single_spaced_re_sub_spaces: "single_spaced (re_sub_spaces xs)"
proof (induction xs rule: re_sub_spaces.induct)
  case 1
  then show ?case by simp
next
  case (2 c cs)
  show ?case
  proof (cases "isspace c")
    case True
    let ?r = "dropWhile isspace cs"
    show ?thesis
    proof (cases ?r)
      case Nil
      then have "re_sub_spaces (c # cs) = [CHR '' '']"
        using True by (simp del: dropWhile_eq_Nil_conv)
      then show ?thesis by simp
    next
      case (Cons d ds)
      then have "\<not> isspace d" using hd_dropWhile_not_space [of cs] by simp
      moreover have "single_spaced (re_sub_spaces ?r)" using 2(1) True by simp
      ultimately show ?thesis using True Cons by simp
    qed
  next
    case False
    have ih: "single_spaced (re_sub_spaces cs)" using 2(2) False by simp
    show ?thesis
    proof (cases "re_sub_spaces cs")
      case Nil
      with False show ?thesis by simp
    next
      case (Cons d ds)
      with False ih show ?thesis by simp
    qed
  qed
qed

lemma re_sub_spaces_fixed:
  "single_spaced xs \<Longrightarrow> (\<forall>c \<in> set xs. isspace c \<longrightarrow> c = CHR '' '')
   \<Longrightarrow> (xs \<noteq> [] \<longrightarrow> \<not> isspace (last xs)) \<Longrightarrow> re_sub_spaces xs = xs"
proof (induction xs rule: single_spaced.induct)
  case 1
  then show ?case by simp
next
  case (2 c)
  then show ?case by simp
next
  case (3 a b cs)
  then show ?case by (auto split: if_splits)
qed

lemma last_re_sub_spaces:
  "xs \<noteq> [] \<Longrightarrow> \<not> isspace (last xs) \<Longrightarrow> last (re_sub_spaces xs) = last xs"
proof (induction xs rule: re_sub_spaces.induct)
  case 1
  then show ?case by simp
next
  case (2 c cs)
  show ?case
  proof (cases "isspace c")
    case True
    with 2(4) have ne: "cs \<noteq> []" by auto
    with 2(4) have l: "\<not> isspace (last cs)" by simp
    have dne: "dropWhile isspace cs \<noteq> []"
      using ne l by (metis dropWhile_eq_Nil_conv last_in_set)
    have "last (dropWhile isspace cs) = last cs"
      using dne by (metis last_appendR takeWhile_dropWhile_id)
    moreover have "last (re_sub_spaces (dropWhile isspace cs)) = last (dropWhile isspace cs)"
      using 2(1) [OF True dne] l calculation by simp
    moreover have "re_sub_spaces (dropWhile isspace cs) \<noteq> []"
      using dne by (simp del: dropWhile_eq_Nil_conv)
    ultimately show ?thesis using True ne by (simp del: dropWhile_eq_Nil_conv)
  next
    case False
    with 2 show ?thesis by (cases cs) auto
  qed
qed

lemma dropWhile_hd_fixed: "ys \<noteq> [] \<Longrightarrow> \<not> P (hd ys) \<Longrightarrow> dropWhile P ys = ys"
  by (cases ys) auto

lemma strip_fixed:
  "(xs \<noteq> [] \<longrightarrow> \<not> isspace (hd xs) \<and> \<not> isspace (last xs)) \<Longrightarrow> strip xs = xs"
proof (cases xs)
  case Nil
  then show ?thesis by (simp add: strip_def)
next
  case (Cons a as)
  assume "xs \<noteq> [] \<longrightarrow> \<not> isspace (hd xs) \<and> \<not> isspace (last xs)"
  with Cons have h: "\<not> isspace a" and l: "\<not> isspace (last xs)" by auto
  have "dropWhile isspace xs = xs" using Cons h by simp
  moreover have "dropWhile isspace (rev xs) = rev xs"
  proof (rule dropWhile_hd_fixed)
    show "rev xs \<noteq> []" using Cons by simp
    show "\<not> isspace (hd (rev xs))" using l Cons by (metis hd_rev list.distinct(1))
  qed
  ultimately show ?thesis by (simp add: strip_def)
qed

lemma strip_ends:
  "strip xs \<noteq> [] \<Longrightarrow> \<not> isspace (hd (strip xs)) \<and> \<not> isspace (last (strip xs))"
proof -
  assume ne: "strip xs \<noteq> []"
  let ?a = "dropWhile isspace xs"
  let ?b = "dropWhile isspace (rev ?a)"
  have s: "strip xs = rev ?b" by (simp add: strip_def)
  from ne s have bne: "?b \<noteq> []" by simp
  then have hb: "\<not> isspace (hd ?b)" using hd_dropWhile by blast
  have l: "last (strip xs) = hd ?b" using s bne by (simp add: last_rev)
  have ane: "?a \<noteq> []"
  proof
    assume "?a = []"
    then have "?b = []" by (simp only: rev.simps dropWhile.simps)
    with bne show False by simp
  qed
  then have ha: "\<not> isspace (hd ?a)" using hd_dropWhile by blast
  have "rev ?a = takeWhile isspace (rev ?a) @ ?b" by simp
  then have "?a = rev ?b @ rev (takeWhile isspace (rev ?a))"
    by (metis rev_append rev_rev_ident)
  then have "hd ?a = hd (rev ?b)" using bne by (metis hd_append2 rev_is_Nil_conv)
  with ha s have "\<not> isspace (hd (strip xs))" by simp
  with hb l show ?thesis by simp
qed

text \<open>
  Claim C8. Normalization is idempotent: normalizing the result of a normalization returns
  it unchanged, for every string.
\<close>

theorem C8_normalize_idempotent: "normalize (normalize s) = normalize s"
proof -
  let ?t = "strip s"
  let ?n = "re_sub_spaces ?t"
  have fix_strip: "strip ?n = ?n"
  proof (rule strip_fixed, rule impI)
    assume ne: "?n \<noteq> []"
    then have tne: "?t \<noteq> []" by simp
    then have e: "\<not> isspace (hd ?t)" "\<not> isspace (last ?t)" using strip_ends by auto
    have "hd ?n = hd ?t" using hd_re_sub_spaces [OF tne] e by simp
    moreover have "last ?n = last ?t" using last_re_sub_spaces [OF tne e(2)] .
    ultimately show "\<not> isspace (hd ?n) \<and> \<not> isspace (last ?n)" using e by simp
  qed
  have "re_sub_spaces ?n = ?n"
  proof (rule re_sub_spaces_fixed)
    show "single_spaced ?n" by (rule single_spaced_re_sub_spaces)
    show "\<forall>c\<in>set ?n. isspace c \<longrightarrow> c = CHR '' ''"
      using re_sub_spaces_space_is_blank by blast
    show "?n \<noteq> [] \<longrightarrow> \<not> isspace (last ?n)"
    proof
      assume ne: "?n \<noteq> []"
      then have tne: "?t \<noteq> []" by simp
      then have e: "\<not> isspace (last ?t)" using strip_ends by auto
      show "\<not> isspace (last ?n)" using last_re_sub_spaces [OF tne e] e by simp
    qed
  qed
  with fix_strip show ?thesis by (simp add: normalize_def)
qed

section \<open>Question selection\<close>

lemma py_in_sublist: "py_in sub s = sublist sub s"
  by (induction s) (simp_all add: sublist_Cons_right)

lemma contains_ci_iff:
  assumes "lower keyword = keyword"
  shows "contains_ci keyword s = py_in keyword (lower s)"
proof
  assume "contains_ci keyword s"
  then obtain pre w post where "s = pre @ w @ post" "lower w = keyword"
    using assms by (auto simp: contains_ci_def)
  then have "lower s = lower pre @ keyword @ lower post" by (simp add: lower_def)
  then show "py_in keyword (lower s)" unfolding py_in_sublist sublist_def by blast
next
  assume "py_in keyword (lower s)"
  then have "sublist keyword (map lower_char s)" by (simp add: py_in_sublist lower_def)
  then obtain a b where ab: "map lower_char s = a @ keyword @ b"
    unfolding sublist_def by blast
  have "\<exists>pre rest. s = pre @ rest \<and> a = map lower_char pre \<and> keyword @ b = map lower_char rest"
    using ab by (simp only: map_eq_append_conv)
  then obtain pre rest where s1: "s = pre @ rest" and r: "keyword @ b = map lower_char rest"
    by blast
  have "\<exists>w post. rest = w @ post \<and> keyword = map lower_char w \<and> b = map lower_char post"
    using r by (simp only: append_eq_map_conv)
  then obtain w post where w: "rest = w @ post" "keyword = map lower_char w"
    by blast
  have "s = pre @ w @ post \<and> lower w = lower keyword"
    using s1 w assms by (simp add: lower_def)
  then show "contains_ci keyword s"
    unfolding contains_ci_def by blast
qed

lemma select_keys_eq:
  "select_keys summary_l table acc =
     acc @ concat (map snd (filter (\<lambda>(keyword, keys). py_in keyword summary_l) table))"
proof (induction table arbitrary: acc)
  case Nil
  then show ?case by simp
next
  case (Cons kw table)
  obtain keyword keys where kw: "kw = (keyword, keys)" by (cases kw)
  show ?case unfolding kw by (simp add: Cons.IH)
qed

lemma set_keep_first [simp]: "set (keep_first xs) = set xs"
  by (induction xs rule: keep_first.induct) auto

lemma distinct_keep_first [simp]: "distinct (keep_first xs)"
  by (induction xs rule: keep_first.induct) auto

lemma keep_first_distinct: "distinct xs \<Longrightarrow> keep_first xs = xs"
proof (induction xs)
  case Nil
  then show ?case by simp
next
  case (Cons a xs)
  then have "filter (\<lambda>y. y \<noteq> a) xs = xs" by (auto simp: filter_id_conv)
  with Cons show ?case by simp
qed

lemma dedupe_keys_eq:
  "set ks \<subseteq> dom (map_of registry) \<Longrightarrow>
   dedupe_keys registry ks seen result =
     Inr (result @ map (\<lambda>k. the (map_of registry k)) (keep_first (filter (\<lambda>k. k \<notin> seen) ks)))"
proof (induction ks arbitrary: seen result)
  case Nil
  then show ?case by simp
next
  case (Cons k ks)
  then have sub: "set ks \<subseteq> dom (map_of registry)" by simp
  show ?case
  proof (cases "k \<in> seen")
    case True
    with Cons.IH [OF sub] show ?thesis by simp
  next
    case False
    from Cons.prems obtain q where q: "map_of registry k = Some q" by auto
    have "filter (\<lambda>y. y \<noteq> k) (filter (\<lambda>k. k \<notin> seen) ks) = filter (\<lambda>x. x \<notin> insert k seen) ks"
      by (induction ks) auto
    with False q Cons.IH [OF sub, of "insert k seen" "result @ [q]"] show ?thesis by simp
  qed
qed

lemma keywords_lower:
  "lower ''web'' = ''web''" "lower ''api'' = ''api''"
  "lower ''data'' = ''data''" "lower ''agent'' = ''agent''"
  by (simp_all add: lower_def lower_char_def)

lemma matched_keys_py_in:
  "matched_keys summary KEYWORDS =
     concat (map snd (filter (\<lambda>(keyword, keys). py_in keyword (lower summary)) KEYWORDS))"
proof -
  have "\<forall>p \<in> set KEYWORDS. lower (fst p) = fst p"
    by (simp add: KEYWORDS_def keywords_lower)
  then have "filter (\<lambda>(keyword, keys). contains_ci keyword summary) KEYWORDS
           = filter (\<lambda>(keyword, keys). py_in keyword (lower summary)) KEYWORDS"
    by (intro filter_cong refl) (auto simp: contains_ci_iff)
  then show ?thesis by (simp add: matched_keys_def)
qed

lemma concat_filter_subset:
  "set (concat (map snd (filter P table))) \<subseteq> set (concat (map snd table))"
  by auto

lemma distinct_concat_filter:
  "distinct (concat (map snd table)) \<Longrightarrow> distinct (concat (map snd (filter P table)))"
  by (induction table) auto

lemma keyword_keys_registered:
  "set (concat (map snd KEYWORDS)) \<subseteq> dom (map_of KEYWORD_QUESTIONS)"
  by (simp add: KEYWORDS_def KEYWORD_QUESTIONS_def dom_map_of_conv_image_fst)

lemma keyword_keys_distinct: "distinct (concat (map snd KEYWORDS))"
  by (simp add: KEYWORDS_def)

lemma registry_key: "map_of KEYWORD_QUESTIONS k = Some q \<Longrightarrow> key q = k"
  by (auto simp: KEYWORD_QUESTIONS_def split: if_splits)

lemma matched_keys_registered:
  "set (matched_keys summary table) \<subseteq> set (concat (map snd table))"
  unfolding matched_keys_def by (rule concat_filter_subset)

lemma matched_keys_distinct: "distinct (matched_keys summary KEYWORDS)"
  unfolding matched_keys_def by (rule distinct_concat_filter [OF keyword_keys_distinct])

lemma choose_keyword_questions_eq:
  "choose_keyword_questions summary =
     Inr (map (\<lambda>k. the (map_of KEYWORD_QUESTIONS k)) (keep_first (matched_keys summary KEYWORDS)))"
proof -
  have sel: "select_keys (lower summary) KEYWORDS [] = matched_keys summary KEYWORDS"
    by (simp add: select_keys_eq matched_keys_py_in)
  have "set (matched_keys summary KEYWORDS) \<subseteq> dom (map_of KEYWORD_QUESTIONS)"
    using matched_keys_registered keyword_keys_registered by blast
  from dedupe_keys_eq [OF this, of "{}" "[]"] sel show ?thesis
    by (simp add: choose_keyword_questions_def)
qed


lemma chosen_keys:
  "set ks \<subseteq> dom (map_of KEYWORD_QUESTIONS) \<Longrightarrow>
   map key (map (\<lambda>k. the (map_of KEYWORD_QUESTIONS k)) ks) = ks"
proof (induction ks)
  case Nil
  then show ?case by simp
next
  case (Cons k ks)
  then obtain q where "map_of KEYWORD_QUESTIONS k = Some q" by auto
  with Cons registry_key [OF this] show ?case by simp
qed

lemma chosen_registered:
  "set ks \<subseteq> dom (map_of KEYWORD_QUESTIONS) \<Longrightarrow>
   list_all (\<lambda>q. map_of KEYWORD_QUESTIONS (key q) = Some q)
     (map (\<lambda>k. the (map_of KEYWORD_QUESTIONS k)) ks)"
proof (induction ks)
  case Nil
  then show ?case by simp
next
  case (Cons k ks)
  then obtain q where "map_of KEYWORD_QUESTIONS k = Some q" by auto
  with Cons registry_key [OF this] show ?case by simp
qed

lemma fixed_keys_apart:
  "set (map key (CORE_QUESTIONS @ EXTRA_QUESTIONS)) \<inter> set (concat (map snd KEYWORDS)) = {}"
  by (simp add: CORE_QUESTIONS_def EXTRA_QUESTIONS_def KEYWORDS_def)

lemma fixed_keys_distinct: "distinct (map key (CORE_QUESTIONS @ EXTRA_QUESTIONS))"
  by (simp add: CORE_QUESTIONS_def EXTRA_QUESTIONS_def)

text \<open>The resolved question sequence of every summary.\<close>

lemma resolved_sequence:
  "\<exists>chosen. build_question_set summary = Inr (CORE_QUESTIONS @ chosen @ EXTRA_QUESTIONS)
     \<and> map key chosen = matched_keys summary KEYWORDS
     \<and> list_all (\<lambda>q. map_of KEYWORD_QUESTIONS (key q) = Some q) chosen
     \<and> distinct (map key (CORE_QUESTIONS @ chosen @ EXTRA_QUESTIONS))"
proof -
  let ?ks = "matched_keys summary KEYWORDS"
  let ?chosen = "map (\<lambda>k. the (map_of KEYWORD_QUESTIONS k)) ?ks"
  have reg: "set ?ks \<subseteq> dom (map_of KEYWORD_QUESTIONS)"
    using matched_keys_registered keyword_keys_registered by blast
  have kf: "keep_first ?ks = ?ks" by (rule keep_first_distinct [OF matched_keys_distinct])
  have b: "build_question_set summary = Inr (CORE_QUESTIONS @ ?chosen @ EXTRA_QUESTIONS)"
    by (simp add: build_question_set_def choose_keyword_questions_eq kf)
  have k: "map key ?chosen = ?ks" by (rule chosen_keys [OF reg])
  have r: "list_all (\<lambda>q. map_of KEYWORD_QUESTIONS (key q) = Some q) ?chosen"
    by (rule chosen_registered [OF reg])
  have apart: "set (map key (CORE_QUESTIONS @ EXTRA_QUESTIONS)) \<inter> set ?ks = {}"
    using fixed_keys_apart matched_keys_registered [of summary KEYWORDS] by blast
  have "distinct (map key (CORE_QUESTIONS @ ?chosen @ EXTRA_QUESTIONS))"
    using fixed_keys_distinct apart matched_keys_distinct [of summary] k
    by (auto simp del: map_map)
  with b k r show ?thesis by blast
qed

text \<open>
  Claim C7. A summary that contains none of the recognized keywords as a case-insensitive
  substring resolves to the core questions followed by the extra questions, and nothing
  else.
\<close>

theorem C7_no_keyword:
  assumes "\<forall>keyword \<in> set (map fst KEYWORDS). \<not> contains_ci keyword summary"
  shows "build_question_set summary = Inr (CORE_QUESTIONS @ EXTRA_QUESTIONS)"
proof -
  have "filter (\<lambda>(keyword, keys). contains_ci keyword summary) KEYWORDS = []"
    using assms by (auto simp: filter_empty_conv)
  then have "matched_keys summary KEYWORDS = []" by (simp add: matched_keys_def)
  with resolved_sequence [of summary] show ?thesis by auto
qed

theorem C7_no_keyword_witness:
  "\<not> contains_ci ''web'' ''Build a CLI To-Do list''
   \<and> \<not> contains_ci ''api'' ''Build a CLI To-Do list''
   \<and> \<not> contains_ci ''data'' ''Build a CLI To-Do list''
   \<and> \<not> contains_ci ''agent'' ''Build a CLI To-Do list''
   \<and> build_question_set ''Build a CLI To-Do list'' = Inr (CORE_QUESTIONS @ EXTRA_QUESTIONS)"
proof -
  let ?s = "''Build a CLI To-Do list''"
  have l: "lower ?s = ''build a cli to-do list''"
    by code_simp
  have c: "\<not> contains_ci ''web'' ?s" "\<not> contains_ci ''api'' ?s"
          "\<not> contains_ci ''data'' ?s" "\<not> contains_ci ''agent'' ?s"
    by (simp_all add: contains_ci_iff keywords_lower l)
  have h: "\<forall>keyword \<in> set (map fst KEYWORDS). \<not> contains_ci keyword ?s"
    by (simp add: KEYWORDS_def c)
  from c C7_no_keyword [OF h] show ?thesis by simp
qed

lemma count_list_distinct:
  "distinct xs \<Longrightarrow> x \<in> set xs \<Longrightarrow> count_list xs x = 1"
  by (induction xs) (auto simp: count_list_0_iff)

lemma matched_keys_subset:
  "list_all (\<lambda>(keyword, keys). contains_ci keyword summary \<longrightarrow>
      set keys \<subseteq> set (matched_keys summary table)) table"
  unfolding matched_keys_def list_all_iff by auto

text \<open>
  Claim C5. When a summary contains several recognized keywords as case-insensitive
  substrings, the supplemental questions chosen are the registry entries of the matched
  keywords' keys, deduplicated keeping the first occurrence, in the order of the keyword
  table and, within a keyword, in the declared order of its keys; the keys of every
  matched keyword are among them, and no key occurs twice in the resolved sequence.
\<close>

theorem C5_multiple_keywords:
  assumes "1 < length (filter (\<lambda>keyword. contains_ci keyword summary) (map fst KEYWORDS))"
  shows "\<exists>chosen. build_question_set summary = Inr (CORE_QUESTIONS @ chosen @ EXTRA_QUESTIONS)
     \<and> map key chosen = keep_first (matched_keys summary KEYWORDS)
     \<and> list_all (\<lambda>q. map_of KEYWORD_QUESTIONS (key q) = Some q) chosen
     \<and> list_all (\<lambda>(keyword, keys). contains_ci keyword summary \<longrightarrow>
           set keys \<subseteq> set (map key chosen)) KEYWORDS
     \<and> distinct (map key (CORE_QUESTIONS @ chosen @ EXTRA_QUESTIONS))"
proof -
  from resolved_sequence [of summary] obtain chosen where
    b: "build_question_set summary = Inr (CORE_QUESTIONS @ chosen @ EXTRA_QUESTIONS)" and
    k: "map key chosen = matched_keys summary KEYWORDS" and
    r: "list_all (\<lambda>q. map_of KEYWORD_QUESTIONS (key q) = Some q) chosen" and
    d: "distinct (map key (CORE_QUESTIONS @ chosen @ EXTRA_QUESTIONS))"
    by blast
  have kf: "map key chosen = keep_first (matched_keys summary KEYWORDS)"
    using k keep_first_distinct [OF matched_keys_distinct, of summary] by simp
  have m: "list_all (\<lambda>(keyword, keys). contains_ci keyword summary \<longrightarrow>
           set keys \<subseteq> set (map key chosen)) KEYWORDS"
    unfolding k by (rule matched_keys_subset)
  from b kf r m d show ?thesis by blast
qed

theorem C5_multiple_keywords_witness:
  "1 < length (filter (\<lambda>keyword. contains_ci keyword ''Build a web API for tracking tasks'')
                 (map fst KEYWORDS))
   \<and> (\<exists>chosen. build_question_set ''Build a web API for tracking tasks''
                   = Inr (CORE_QUESTIONS @ chosen @ EXTRA_QUESTIONS)
         \<and> map key chosen
             = [''ui_framework'', ''deployment_target'', ''api_style'', ''auth_requirements''])"
proof -
  let ?s = "''Build a web API for tracking tasks''"
  have l: "lower ?s = ''build a web api for tracking tasks''"
    by code_simp
  have c: "contains_ci ''web'' ?s" "contains_ci ''api'' ?s"
          "\<not> contains_ci ''data'' ?s" "\<not> contains_ci ''agent'' ?s"
    by (simp_all add: contains_ci_iff keywords_lower l)
  have h: "1 < length (filter (\<lambda>keyword. contains_ci keyword ?s) (map fst KEYWORDS))"
    by (simp add: KEYWORDS_def c)
  have m: "keep_first (matched_keys ?s KEYWORDS)
           = [''ui_framework'', ''deployment_target'', ''api_style'', ''auth_requirements'']"
    by (simp add: matched_keys_def KEYWORDS_def c)
  from C5_multiple_keywords [OF h] m h show ?thesis by auto
qed

text \<open>
  Claim C6. When a summary contains the keyword web as a case-insensitive substring, the
  resolved sequence is the core questions, then the two web questions (ui_framework and
  deployment_target, as the registry defines them), then the questions of the keywords
  declared after web that match, then the extra questions; each of the two web keys occurs
  exactly once in it.
\<close>

theorem C6_web_keyword:
  assumes "contains_ci ''web'' summary"
  shows "\<exists>ui dep rest.
       build_question_set summary = Inr (CORE_QUESTIONS @ [ui, dep] @ rest @ EXTRA_QUESTIONS)
     \<and> map_of KEYWORD_QUESTIONS ''ui_framework'' = Some ui
     \<and> map_of KEYWORD_QUESTIONS ''deployment_target'' = Some dep
     \<and> map key rest = matched_keys summary (tl KEYWORDS)
     \<and> count_list (map key (CORE_QUESTIONS @ [ui, dep] @ rest @ EXTRA_QUESTIONS))
          ''ui_framework'' = 1
     \<and> count_list (map key (CORE_QUESTIONS @ [ui, dep] @ rest @ EXTRA_QUESTIONS))
          ''deployment_target'' = 1"
proof -
  from resolved_sequence [of summary] obtain chosen where
    b: "build_question_set summary = Inr (CORE_QUESTIONS @ chosen @ EXTRA_QUESTIONS)" and
    k: "map key chosen = matched_keys summary KEYWORDS" and
    r: "list_all (\<lambda>q. map_of KEYWORD_QUESTIONS (key q) = Some q) chosen" and
    d: "distinct (map key (CORE_QUESTIONS @ chosen @ EXTRA_QUESTIONS))"
    by blast
  have "matched_keys summary KEYWORDS
        = [''ui_framework'', ''deployment_target''] @ matched_keys summary (tl KEYWORDS)"
    using assms by (simp add: matched_keys_def KEYWORDS_def)
  with k have k': "map key chosen
        = ''ui_framework'' # ''deployment_target'' # matched_keys summary (tl KEYWORDS)"
    by simp
  then obtain ui dep rest where c: "chosen = ui # dep # rest"
    and ku: "key ui = ''ui_framework''" and kd: "key dep = ''deployment_target''"
    and kr: "map key rest = matched_keys summary (tl KEYWORDS)"
    by (auto simp: map_eq_Cons_conv)
  have ru: "map_of KEYWORD_QUESTIONS ''ui_framework'' = Some ui"
    and rd: "map_of KEYWORD_QUESTIONS ''deployment_target'' = Some dep"
    using r c ku kd by auto
  let ?all = "CORE_QUESTIONS @ [ui, dep] @ rest @ EXTRA_QUESTIONS"
  have d': "distinct (map key ?all)" using d c by simp
  have "''ui_framework'' \<in> set (map key ?all)" using ku by force
  then have c1: "count_list (map key ?all) ''ui_framework'' = 1"
    by (rule count_list_distinct [OF d'])
  have "''deployment_target'' \<in> set (map key ?all)" using kd by force
  then have c2: "count_list (map key ?all) ''deployment_target'' = 1"
    by (rule count_list_distinct [OF d'])
  from b c ru rd kr c1 c2 show ?thesis by auto
qed

theorem C6_web_keyword_witness:
  "contains_ci ''web'' ''A Web dashboard''
   \<and> (\<exists>ui dep rest.
         build_question_set ''A Web dashboard''
           = Inr (CORE_QUESTIONS @ [ui, dep] @ rest @ EXTRA_QUESTIONS)
       \<and> map_of KEYWORD_QUESTIONS ''ui_framework'' = Some ui
       \<and> map_of KEYWORD_QUESTIONS ''deployment_target'' = Some dep
       \<and> rest = [])"
proof -
  let ?s = "''A Web dashboard''"
  have l: "lower ?s = ''a web dashboard''"
    by code_simp
  have h: "contains_ci ''web'' ?s"
    by (simp add: contains_ci_iff keywords_lower l)
  have "matched_keys ?s (tl KEYWORDS) = []"
    by (simp add: matched_keys_def KEYWORDS_def contains_ci_iff keywords_lower l)
  with C6_web_keyword [OF h] h show ?thesis by auto
qed

subsection \<open>Selection on the normalized summary\<close>

text \<open>
  \<^verbatim>\<open>main\<close> hands the normalized summary to \<^verbatim>\<open>build_question_set\<close>. Matching a keyword
  against the normalized summary is matching it against the summary as given:
  normalization touches whitespace only, and no keyword holds any. So the three theorems
  above read the same with the keyword sought in the argument of the command line.
\<close>

lemma isspace_lower_char: "isspace (lower_char c) = isspace c"
proof -
  let ?n = "of_char c :: nat"
  have lt: "?n < 256" by simp
  show ?thesis
  proof (cases "(65 \<le> ?n \<and> ?n \<le> 90) \<or> (192 \<le> ?n \<and> ?n \<le> 214) \<or> (216 \<le> ?n \<and> ?n \<le> 222)")
    case True
    then have l: "lower_char c = char_of (?n + 32)" by (simp add: lower_char_def Let_def)
    have "(of_char (char_of (?n + 32)) :: nat) = ?n + 32"
      using True by (auto simp: of_char_of)
    with True l show ?thesis by (auto simp: isspace_def)
  next
    case False
    then have "lower_char c = c" by (auto simp: lower_char_def Let_def)
    then show ?thesis by simp
  qed
qed

lemma dropWhile_isspace_lower:
  "dropWhile isspace (map lower_char xs) = map lower_char (dropWhile isspace xs)"
  by (simp add: dropWhile_map comp_def isspace_lower_char)

lemma strip_lower: "strip (lower s) = lower (strip s)"
proof -
  have "strip (map lower_char s)
        = rev (dropWhile isspace (map lower_char (rev (dropWhile isspace s))))"
    by (simp add: strip_def dropWhile_isspace_lower rev_map)
  also have "\<dots> = map lower_char (strip s)"
    by (simp add: strip_def dropWhile_isspace_lower rev_map)
  finally show ?thesis by (simp add: lower_def)
qed

lemma re_sub_spaces_lower: "re_sub_spaces (lower s) = lower (re_sub_spaces s)"
proof (induction s rule: re_sub_spaces.induct)
  case 1
  then show ?case by (simp add: lower_def)
next
  case (2 c cs)
  have b: "lower_char CHR '' '' = CHR '' ''" by (simp add: lower_char_def)
  show ?case
  proof (cases "isspace c")
    case True
    with 2(1) show ?thesis
      by (simp add: lower_def isspace_lower_char dropWhile_isspace_lower b)
  next
    case False
    with 2(2) show ?thesis by (simp add: lower_def isspace_lower_char)
  qed
qed

lemma normalize_lower: "normalize (lower s) = lower (normalize s)"
  by (simp add: normalize_def strip_lower re_sub_spaces_lower)

lemma prefix_re_sub_spaces:
  "list_all (\<lambda>c. \<not> isspace c) w \<Longrightarrow> prefix w (re_sub_spaces xs) = prefix w xs"
proof (induction xs arbitrary: w rule: re_sub_spaces.induct)
  case 1
  then show ?case by simp
next
  case (2 c cs)
  show ?case
  proof (cases w)
    case Nil
    then show ?thesis by simp
  next
    case (Cons k ks)
    with 2(3) have k: "\<not> isspace k" and ks: "list_all (\<lambda>c. \<not> isspace c) ks" by simp_all
    have sp: "isspace CHR '' ''" by (simp add: isspace_def)
    show ?thesis
    proof (cases "isspace c")
      case True
      with k sp have "k \<noteq> c" "k \<noteq> CHR '' ''" by auto
      with True Cons show ?thesis by simp
    next
      case False
      with 2(2) [OF False ks] Cons show ?thesis by simp
    qed
  qed
qed

lemma sublist_skip_spaces:
  assumes "list_all (\<lambda>c. \<not> isspace c) w" and "w \<noteq> []"
  shows "sublist w (dropWhile isspace xs) = sublist w xs"
proof (induction xs)
  case Nil
  then show ?case by simp
next
  case (Cons c cs)
  show ?case
  proof (cases "isspace c")
    case True
    obtain k ks where w: "w = k # ks" using assms(2) by (cases w) auto
    with assms(1) True have "k \<noteq> c" by auto
    then have "\<not> prefix w (c # cs)" using w by simp
    with True Cons show ?thesis by (simp add: sublist_Cons_right)
  next
    case False
    then show ?thesis by simp
  qed
qed

lemma sublist_rev_iff: "sublist (rev w) (rev xs) = sublist w xs"
  by (simp add: sublist_rev)

lemma sublist_strip:
  assumes "list_all (\<lambda>c. \<not> isspace c) w" and "w \<noteq> []"
  shows "sublist w (strip xs) = sublist w xs"
proof -
  have r: "list_all (\<lambda>c. \<not> isspace c) (rev w)" "rev w \<noteq> []"
    using assms by (simp_all add: list_all_iff)
  have "sublist w (strip xs) = sublist (rev w) (dropWhile isspace (rev (dropWhile isspace xs)))"
    unfolding strip_def by (metis sublist_rev_iff rev_rev_ident)
  also have "\<dots> = sublist (rev w) (rev (dropWhile isspace xs))"
    by (rule sublist_skip_spaces [OF r])
  also have "\<dots> = sublist w (dropWhile isspace xs)" by (rule sublist_rev_iff)
  also have "\<dots> = sublist w xs" by (rule sublist_skip_spaces [OF assms])
  finally show ?thesis .
qed

lemma sublist_re_sub_spaces:
  assumes "list_all (\<lambda>c. \<not> isspace c) w" and "w \<noteq> []"
  shows "sublist w (re_sub_spaces xs) = sublist w xs"
proof (induction xs rule: re_sub_spaces.induct)
  case 1
  then show ?case by simp
next
  case (2 c cs)
  obtain k ks where w: "w = k # ks" using assms(2) by (cases w) auto
  have k: "\<not> isspace k" using assms(1) w by simp
  have sp: "isspace CHR '' ''" by (simp add: isspace_def)
  show ?case
  proof (cases "isspace c")
    case True
    with k sp have ne: "k \<noteq> c" "k \<noteq> CHR '' ''" by auto
    have "sublist w (re_sub_spaces (c # cs)) = sublist w (re_sub_spaces (dropWhile isspace cs))"
      using True ne w by (simp add: sublist_Cons_right)
    also have "\<dots> = sublist w (dropWhile isspace cs)" using 2(1) [OF True] .
    also have "\<dots> = sublist w cs" by (rule sublist_skip_spaces [OF assms])
    also have "\<dots> = sublist w (c # cs)" using ne w by (simp add: sublist_Cons_right)
    finally show ?thesis .
  next
    case False
    have "prefix w (c # re_sub_spaces cs) = prefix w (c # cs)"
      using prefix_re_sub_spaces [OF assms(1), of "c # cs"] False by simp
    with False 2(2) [OF False] show ?thesis by (simp add: sublist_Cons_right)
  qed
qed


lemma contains_ci_normalize:
  assumes "list_all (\<lambda>c. \<not> isspace c) keyword" and "keyword \<noteq> []"
    and "lower keyword = keyword"
  shows "contains_ci keyword (normalize s) = contains_ci keyword s"
proof -
  have "contains_ci keyword (normalize s) = sublist keyword (normalize (lower s))"
    by (simp add: contains_ci_iff [OF assms(3)] py_in_sublist normalize_lower)
  also have "\<dots> = sublist keyword (lower s)"
    unfolding normalize_def
    by (simp add: sublist_re_sub_spaces [OF assms(1,2)] sublist_strip [OF assms(1,2)])
  also have "\<dots> = contains_ci keyword s"
    by (simp add: contains_ci_iff [OF assms(3)] py_in_sublist)
  finally show ?thesis .
qed

lemma keyword_match_normalize:
  "keyword \<in> set (map fst KEYWORDS) \<Longrightarrow>
   contains_ci keyword (normalize s) = contains_ci keyword s"
proof -
  assume "keyword \<in> set (map fst KEYWORDS)"
  then have "list_all (\<lambda>c. \<not> isspace c) keyword \<and> keyword \<noteq> [] \<and> lower keyword = keyword"
    by (auto simp: KEYWORDS_def isspace_def keywords_lower)
  then show ?thesis using contains_ci_normalize by blast
qed

section \<open>The entry point\<close>

lemma normalize_empty_iff: "normalize s = [] \<longleftrightarrow> list_all isspace s"
proof -
  have "strip s = [] \<longleftrightarrow> list_all isspace s"
  proof
    assume a: "strip s = []"
    show "list_all isspace s"
    proof (rule ccontr)
      assume "\<not> list_all isspace s"
      then have ne: "dropWhile isspace s \<noteq> []" by (simp add: list_all_iff)
      then have "\<not> isspace (hd (dropWhile isspace s))" by (rule hd_dropWhile_not_space)
      then have "\<not> isspace (last (rev (dropWhile isspace s)))"
        using ne by (simp add: last_rev)
      then have "dropWhile isspace (rev (dropWhile isspace s)) \<noteq> []"
        using ne by (metis dropWhile_eq_Nil_conv last_in_set rev_is_Nil_conv)
      with a show False by (simp add: strip_def del: dropWhile_eq_Nil_conv)
    qed
  next
    assume "list_all isspace s"
    then have "dropWhile isspace s = []" by (simp add: list_all_iff)
    then show "strip s = []" by (simp add: strip_def del: dropWhile_eq_Nil_conv)
  qed
  then show ?thesis by (simp add: normalize_def)
qed

lemma normalize_Not_specified: "normalize ''Not specified'' = ''Not specified''"
  by (simp add: normalize_def strip_def isspace_def)

lemma NL_notin_normalize: "NL \<notin> set (normalize s)"
proof
  assume "NL \<in> set (normalize s)"
  moreover have "isspace NL" by (simp add: isspace_def)
  ultimately have "NL = CHR '' ''"
    unfolding normalize_def by (rule re_sub_spaces_space_is_blank)
  then show False by simp
qed

lemma dict_set_fresh: "k \<notin> fst ` set d \<Longrightarrow> dict_set d k v = d @ [(k, v)]"
  by (induction d) auto

lemma final_answers_loop_distinct:
  "distinct (map key qs) \<Longrightarrow> set (map key qs) \<inter> fst ` set acc = {} \<Longrightarrow>
   final_answers_loop repr answers qs acc
     = acc @ map (\<lambda>q. (key q, normalize (py_str repr (dict_get answers (key q) (JString ''Not specified''))))) qs"
proof (induction qs arbitrary: acc)
  case Nil
  then show ?case by simp
next
  case (Cons q qs)
  let ?v = "normalize (py_str repr (dict_get answers (key q) (JString ''Not specified'')))"
  have fresh: "key q \<notin> fst ` set acc" using Cons.prems(2) by auto
  have d: "distinct (map key qs)" using Cons.prems(1) by simp
  have "set (map key qs) \<inter> fst ` set (acc @ [(key q, ?v)]) = {}"
    using Cons.prems by auto
  from Cons.IH [OF d this] show ?case by (simp add: dict_set_fresh [OF fresh])
qed

lemma final_answers_eq:
  "distinct (map key qs) \<Longrightarrow>
   final_answers repr answers qs = map (\<lambda>q. (key q, batch_value repr answers (key q))) qs"
proof -
  assume d: "distinct (map key qs)"
  have v: "\<And>k. normalize (py_str repr (dict_get answers k (JString ''Not specified'')))
            = batch_value repr answers k"
    by (simp add: dict_get_def batch_value_def py_str_def normalize_Not_specified
             split: option.splits)
  show ?thesis
    unfolding final_answers_def using final_answers_loop_distinct [OF d, of "[]"]
    by (simp add: v)
qed

lemma split_lines_not_Nil [simp]: "split_lines s \<noteq> []"
  by (induction s) (auto split: list.splits)

lemma split_lines_no_NL: "NL \<notin> set l \<Longrightarrow> split_lines l = [l]"
  by (induction l) auto

lemma split_lines_append:
  "NL \<notin> set l \<Longrightarrow> split_lines (l @ NL # rest) = l # split_lines rest"
  by (induction l) auto

lemma split_lines_join:
  "ls \<noteq> [] \<Longrightarrow> list_all (\<lambda>l. NL \<notin> set l) ls \<Longrightarrow> split_lines (join [NL] ls) = ls"
proof (induction ls)
  case Nil
  then show ?case by simp
next
  case (Cons l ls)
  show ?case
  proof (cases ls)
    case Nil
    with Cons.prems show ?thesis by (simp add: split_lines_no_NL)
  next
    case (Cons y ys)
    with Cons.prems Cons.IH show ?thesis by (simp add: split_lines_append)
  qed
qed

lemma build_question_set_total:
  "\<exists>qs. build_question_set summary = Inr qs \<and> distinct (map key qs)
     \<and> list_all (\<lambda>q. NL \<notin> set (key q)) qs"
proof -
  from resolved_sequence [of summary] obtain chosen where
    b: "build_question_set summary = Inr (CORE_QUESTIONS @ chosen @ EXTRA_QUESTIONS)" and
    k: "map key chosen = matched_keys summary KEYWORDS" and
    d: "distinct (map key (CORE_QUESTIONS @ chosen @ EXTRA_QUESTIONS))"
    by blast
  have "\<forall>k \<in> set (concat (map snd KEYWORDS)). NL \<notin> set k"
    by (simp add: KEYWORDS_def)
  then have "\<forall>k \<in> set (map key chosen). NL \<notin> set k"
    unfolding k using matched_keys_registered [of summary KEYWORDS] by blast
  then have c: "list_all (\<lambda>q. NL \<notin> set (key q)) chosen"
    by (simp add: list_all_iff)
  have "list_all (\<lambda>q. NL \<notin> set (key q)) (CORE_QUESTIONS @ EXTRA_QUESTIONS)"
    by (simp add: CORE_QUESTIONS_def EXTRA_QUESTIONS_def)
  with c have "list_all (\<lambda>q. NL \<notin> set (key q)) (CORE_QUESTIONS @ chosen @ EXTRA_QUESTIONS)"
    by simp
  with b d show ?thesis by blast
qed

lemma main_empty_summary:
  "normalize summary_arg = [] \<Longrightarrow>
   main json_loads repr summary_arg answers_json inp
     = \<lparr>stdout = [], stdin_rest = inp, status = Some (SystemExit ''Summary cannot be empty.'')\<rparr>"
  by (simp add: main_def)

lemma main_batch:
  "normalize summary_arg \<noteq> [] \<Longrightarrow> payload \<noteq> [] \<Longrightarrow>
   build_question_set (normalize summary_arg) = Inr qs \<Longrightarrow>
   main json_loads repr summary_arg (Some payload) inp
     = (case load_answers json_loads payload of
          Inl e \<Rightarrow> \<lparr>stdout = [], stdin_rest = inp, status = Some e\<rparr>
        | Inr answers \<Rightarrow> finish repr (normalize summary_arg) qs [] inp answers)"
  by (simp add: main_def)

lemma normalize_todo_app: "normalize ''todo app'' = ''todo app''"
  by (simp add: normalize_def strip_def isspace_def)

lemma questions_todo_app:
  "build_question_set ''todo app'' = Inr (CORE_QUESTIONS @ EXTRA_QUESTIONS)"
  by (simp add: build_question_set_def choose_keyword_questions_def KEYWORDS_def
        lower_def lower_char_def)

lemma load_answers_not_object:
  "\<forall>answers. json_loads payload \<noteq> Inr (JObject answers) \<Longrightarrow>
   \<exists>e. load_answers json_loads payload = Inl e"
  by (auto simp: load_answers_def split: sum.splits json.splits)

text \<open>
  Claim C3. A summary normalizes to the empty string exactly when it is empty or consists
  of whitespace only; for such a summary the run ends with the exit
  \<^verbatim>\<open>Summary cannot be empty.\<close> and exit code 1, whatever the payload and the input are:
  nothing has been written, no line of input has been read, and no document is composed.
\<close>

theorem C3_empty_summary:
  "(normalize summary_arg = [] \<longleftrightarrow> list_all isspace summary_arg)
   \<and> (list_all isspace summary_arg \<longrightarrow>
        main json_loads repr summary_arg answers_json inp
          = \<lparr>stdout = [], stdin_rest = inp,
             status = Some (SystemExit ''Summary cannot be empty.'')\<rparr>
        \<and> exit_code (main json_loads repr summary_arg answers_json inp) = 1)"
  using main_empty_summary [of summary_arg json_loads repr answers_json inp]
  by (simp add: normalize_empty_iff exit_code_def)

theorem C3_empty_summary_witness:
  "list_all isspace [CHR '' '', CHR 0x09, NL]
   \<and> main json_loads_sample no_repr [CHR '' '', CHR 0x09, NL] (Some ''[]'') [''x'']
       = \<lparr>stdout = [], stdin_rest = [''x''],
          status = Some (SystemExit ''Summary cannot be empty.'')\<rparr>"
proof -
  have h: "list_all isspace [CHR '' '', CHR 0x09, NL]" by (simp add: isspace_def)
  from h C3_empty_summary [of "[CHR '' '', CHR 0x09, NL]" json_loads_sample no_repr "Some ''[]''" "[''x'']"]
  show ?thesis by simp
qed

text \<open>
  Claim C2, as amended. For every payload string that is not empty and does not decode to
  an object, the run writes nothing, reads no input and ends with exit code 1; when the
  summary is not empty and the payload is not valid JSON, the run ends with the exit
  \<^verbatim>\<open>Invalid JSON for --answers-json: \<close> followed by the decoder's description of the
  failure. An empty payload string is treated as no payload at all.
\<close>

theorem C2_malformed_payload:
  assumes "payload \<noteq> []"
    and "\<forall>answers. json_loads payload \<noteq> Inr (JObject answers)"
  shows "stdout (main json_loads repr summary_arg (Some payload) inp) = []
     \<and> stdin_rest (main json_loads repr summary_arg (Some payload) inp) = inp
     \<and> exit_code (main json_loads repr summary_arg (Some payload) inp) = 1
     \<and> (\<forall>msg. normalize summary_arg \<noteq> [] \<and> json_loads payload = Inl msg \<longrightarrow>
          status (main json_loads repr summary_arg (Some payload) inp)
            = Some (SystemExit (''Invalid JSON for --answers-json: '' @ msg)))
     \<and> main json_loads repr summary_arg (Some []) inp
         = main json_loads repr summary_arg None inp"
proof (cases "normalize summary_arg = []")
  case True
  then show ?thesis by (simp add: main_empty_summary exit_code_def)
next
  case False
  obtain qs where qs: "build_question_set (normalize summary_arg) = Inr qs"
    using build_question_set_total by blast
  obtain e where e: "load_answers json_loads payload = Inl e"
    using load_answers_not_object [where json_loads = json_loads and payload = payload] assms(2)
    by blast
  have m: "main json_loads repr summary_arg (Some payload) inp
           = \<lparr>stdout = [], stdin_rest = inp, status = Some e\<rparr>"
    using main_batch [OF False assms(1) qs] e by simp
  have "\<forall>msg. json_loads payload = Inl msg \<longrightarrow>
          e = SystemExit (''Invalid JSON for --answers-json: '' @ msg)"
    using e by (auto simp: load_answers_def)
  moreover have "main json_loads repr summary_arg (Some []) inp
         = main json_loads repr summary_arg None inp"
    unfolding main_def by (simp add: Let_def split: sum.splits)
  ultimately show ?thesis using m by (simp add: exit_code_def)
qed

theorem C2_malformed_payload_witness:
  "''not json'' \<noteq> []
   \<and> (\<forall>answers. json_loads_sample ''not json'' \<noteq> Inr (JObject answers))
   \<and> stdout (main json_loads_sample no_repr ''todo app'' (Some ''not json'') [''x'']) = []
   \<and> status (main json_loads_sample no_repr ''todo app'' (Some ''not json'') [''x''])
       = Some (SystemExit
           ''Invalid JSON for --answers-json: Expecting value: line 1 column 1 (char 0)'')"
proof -
  have j: "json_loads_sample ''not json'' = Inl ''Expecting value: line 1 column 1 (char 0)''"
    by (simp add: json_loads_sample_def)
  have h1: "''not json'' \<noteq> []" by simp
  have h2: "\<forall>answers. json_loads_sample ''not json'' \<noteq> Inr (JObject answers)"
    by (simp add: j)
  from C2_malformed_payload [where json_loads = json_loads_sample and payload = "''not json''"
         and repr = no_repr and summary_arg = "''todo app''" and inp = "[''x'']"] h1 h2 j
  show ?thesis by (simp add: normalize_todo_app)
qed

lemma main_interactive:
  "normalize summary_arg \<noteq> [] \<Longrightarrow>
   build_question_set (normalize summary_arg) = Inr qs \<Longrightarrow>
   ask_questions qs
     (''I will ask targeted questions to sharpen your brief before generating a one-shot prompt.'' @ [NL])
     inp [] = (out, rest, Inr answers) \<Longrightarrow>
   main json_loads repr summary_arg (Some []) inp
     = finish repr (normalize summary_arg) qs out rest (map (\<lambda>(k, v). (k, JString v)) answers)"
  by (simp add: main_def)

lemma ask_questions_enough_input:
  "length qs \<le> length inp \<Longrightarrow>
   \<exists>out. ask_questions qs out0 inp acc
     = (out, drop (length qs) inp,
        Inr (fold (\<lambda>(q, line) a.
                    dict_set a (key q) (if strip line = [] then ''Not specified'' else strip line))
               (zip qs inp) acc))"
proof (induction qs arbitrary: out0 inp acc)
  case Nil
  then show ?case by simp
next
  case (Cons q qs)
  then obtain line rest where inp: "inp = line # rest" by (cases inp) auto
  with Cons.prems have "length qs \<le> length rest" by simp
  from Cons.IH [OF this] show ?case unfolding inp by (simp add: Let_def)
qed

lemma finish_eq:
  "distinct (map key qs) \<Longrightarrow>
   finish repr summary qs out inp answers
     = \<lparr>stdout = out @ banner
                 @ compose_prompt summary
                     (map (\<lambda>q. (key q, batch_value repr answers (key q))) qs)
                 @ [NL],
        stdin_rest = inp, status = None\<rparr>"
  by (simp add: finish_def final_answers_eq)

text \<open>
  The empty payload string is not valid JSON, yet the run takes the interactive branch,
  reads ten answers and ends normally with the composed document at the end of its output.
\<close>

theorem C2_empty_payload_counterexample:
  "json_loads_sample [] = Inl ''Expecting value: line 1 column 1 (char 0)''
   \<and> status (main json_loads_sample no_repr ''todo app'' (Some [])
        [''a'', ''b'', ''c'', ''d'', ''e'', ''f'', ''g'', ''h'', ''i'', ''j'']) = None
   \<and> suffix
       (compose_prompt ''todo app''
          [(''goal'', ''a''), (''audience'', ''b''), (''output_format'', ''c''),
           (''constraints'', ''d''), (''quality_bar'', ''e''), (''non_goals'', ''f''),
           (''data_inputs'', ''g''), (''edge_cases'', ''h''), (''tone'', ''i''),
           (''examples'', ''j'')] @ [NL])
       (stdout (main json_loads_sample no_repr ''todo app'' (Some [])
          [''a'', ''b'', ''c'', ''d'', ''e'', ''f'', ''g'', ''h'', ''i'', ''j'']))"
proof -
  let ?inp = "[''a'', ''b'', ''c'', ''d'', ''e'', ''f'', ''g'', ''h'', ''i'', ''j'']"
  let ?answers = "[(''goal'', ''a''), (''audience'', ''b''), (''output_format'', ''c''),
           (''constraints'', ''d''), (''quality_bar'', ''e''), (''non_goals'', ''f''),
           (''data_inputs'', ''g''), (''edge_cases'', ''h''), (''tone'', ''i''),
           (''examples'', ''j'')]"
  have j: "json_loads_sample [] = Inl ''Expecting value: line 1 column 1 (char 0)''"
    by (simp add: json_loads_sample_def)
  let ?intro = "''I will ask targeted questions to sharpen your brief before generating a one-shot prompt.'' @ [NL]"
  let ?step = "\<lambda>(q, line) a.
      dict_set a (key q) (if strip line = [] then ''Not specified'' else strip line)"
  have "length (CORE_QUESTIONS @ EXTRA_QUESTIONS) \<le> length ?inp"
    by (simp add: CORE_QUESTIONS_def EXTRA_QUESTIONS_def)
  from ask_questions_enough_input [OF this, of ?intro "[]"]
  obtain out where a0: "ask_questions (CORE_QUESTIONS @ EXTRA_QUESTIONS) ?intro ?inp []
      = (out, drop (length (CORE_QUESTIONS @ EXTRA_QUESTIONS)) ?inp,
         Inr (fold ?step (zip (CORE_QUESTIONS @ EXTRA_QUESTIONS) ?inp) []))"
    by blast
  have d0: "drop (length (CORE_QUESTIONS @ EXTRA_QUESTIONS)) ?inp = []"
    by (simp add: CORE_QUESTIONS_def EXTRA_QUESTIONS_def)
  have f0: "fold ?step (zip (CORE_QUESTIONS @ EXTRA_QUESTIONS) ?inp) [] = ?answers"
    by (simp add: CORE_QUESTIONS_def EXTRA_QUESTIONS_def strip_def isspace_def)
  have a: "ask_questions (CORE_QUESTIONS @ EXTRA_QUESTIONS) ?intro ?inp []
      = (out, [], Inr ?answers)"
    using a0 unfolding d0 f0 .
  have n: "normalize ''todo app'' \<noteq> []" by (simp add: normalize_todo_app)
  have q: "build_question_set (normalize ''todo app'') = Inr (CORE_QUESTIONS @ EXTRA_QUESTIONS)"
    by (simp add: normalize_todo_app questions_todo_app)
  have f: "map (\<lambda>q. (key q, batch_value no_repr (map (\<lambda>(k, v). (k, JString v)) ?answers) (key q)))
             (CORE_QUESTIONS @ EXTRA_QUESTIONS) = ?answers"
    by (simp add: CORE_QUESTIONS_def EXTRA_QUESTIONS_def batch_value_def py_str_def
          normalize_def strip_def isspace_def)
  have m: "main json_loads_sample no_repr ''todo app'' (Some []) ?inp
        = \<lparr>stdout = out @ banner @ compose_prompt ''todo app'' ?answers @ [NL],
           stdin_rest = [], status = None\<rparr>"
    unfolding main_interactive [OF n q a] finish_eq [OF fixed_keys_distinct] f
    by (simp add: normalize_todo_app)
  have "suffix (compose_prompt ''todo app'' ?answers @ [NL])
          (out @ banner @ compose_prompt ''todo app'' ?answers @ [NL])"
    unfolding suffix_def by (metis append.assoc)
  with j m show ?thesis by simp
qed

text \<open>
  Claim C1. In batch mode a key whose value in the payload is empty after normalization
  should be given the sentinel \<^verbatim>\<open>Not specified\<close>. The run below has the payload
  \<^verbatim>\<open>{"goal": ""}\<close>: the keys missing from the payload get the sentinel, the key
  \<^verbatim>\<open>goal\<close> keeps the empty string, and the document is composed with it.
\<close>

theorem C1_empty_value_kept:
  "json_loads_sample ''{\"goal\": \"\"}'' = Inr (JObject [(''goal'', JString [])])
   \<and> main json_loads_sample no_repr ''todo app'' (Some ''{\"goal\": \"\"}'') []
       = \<lparr>stdout = banner
             @ compose_prompt ''todo app''
                 [(''goal'', []), (''audience'', ''Not specified''),
                  (''output_format'', ''Not specified''), (''constraints'', ''Not specified''),
                  (''quality_bar'', ''Not specified''), (''non_goals'', ''Not specified''),
                  (''data_inputs'', ''Not specified''), (''edge_cases'', ''Not specified''),
                  (''tone'', ''Not specified''), (''examples'', ''Not specified'')]
             @ [NL],
          stdin_rest = [], status = None\<rparr>"
proof -
  let ?p = "''{\"goal\": \"\"}''"
  have j: "json_loads_sample ?p = Inr (JObject [(''goal'', JString [])])"
    by (simp add: json_loads_sample_def)
  have n: "normalize ''todo app'' \<noteq> []" by (simp add: normalize_todo_app)
  have q: "build_question_set (normalize ''todo app'') = Inr (CORE_QUESTIONS @ EXTRA_QUESTIONS)"
    by (simp add: normalize_todo_app questions_todo_app)
  have p: "?p \<noteq> []" by simp
  have f: "map (\<lambda>q. (key q, batch_value no_repr [(''goal'', JString [])] (key q)))
             (CORE_QUESTIONS @ EXTRA_QUESTIONS)
        = [(''goal'', []), (''audience'', ''Not specified''),
                  (''output_format'', ''Not specified''), (''constraints'', ''Not specified''),
                  (''quality_bar'', ''Not specified''), (''non_goals'', ''Not specified''),
                  (''data_inputs'', ''Not specified''), (''edge_cases'', ''Not specified''),
                  (''tone'', ''Not specified''), (''examples'', ''Not specified'')]"
    by (simp add: CORE_QUESTIONS_def EXTRA_QUESTIONS_def batch_value_def py_str_def
          normalize_def strip_def)
  have "main json_loads_sample no_repr ''todo app'' (Some ?p) []
        = finish no_repr (normalize ''todo app'') (CORE_QUESTIONS @ EXTRA_QUESTIONS) [] []
            [(''goal'', JString [])]"
    unfolding main_batch [OF n p q] by (simp add: load_answers_def j)
  then show ?thesis
    unfolding finish_eq [OF fixed_keys_distinct] f using j
    by (simp add: normalize_todo_app)
qed

lemma main_batch_object:
  assumes "normalize summary_arg \<noteq> []" and "payload \<noteq> []"
    and "json_loads payload = Inr (JObject answers)"
    and "build_question_set (normalize summary_arg) = Inr qs"
    and "distinct (map key qs)"
  shows "main json_loads repr summary_arg (Some payload) inp
     = \<lparr>stdout = banner
                @ compose_prompt (normalize summary_arg)
                    (map (\<lambda>q. (key q, batch_value repr answers (key q))) qs)
                @ [NL],
        stdin_rest = inp, status = None\<rparr>"
  unfolding main_batch [OF assms(1,2,4)] using assms(3)
  by (simp add: load_answers_def finish_eq [OF assms(5)])

lemma NL_notin_batch_value: "NL \<notin> set (batch_value repr answers k)"
  by (simp add: batch_value_def NL_notin_normalize split: option.splits)

lemma context_lines_split:
  assumes "qs \<noteq> []" and "list_all (\<lambda>q. NL \<notin> set (key q)) qs"
  shows "split_lines (context_lines (map (\<lambda>q. (key q, batch_value repr answers (key q))) qs))
       = map (\<lambda>q. requirement_line (key q) (batch_value repr answers (key q))) qs"
proof -
  let ?ls = "map (\<lambda>q. requirement_line (key q) (batch_value repr answers (key q))) qs"
  have c: "context_lines (map (\<lambda>q. (key q, batch_value repr answers (key q))) qs)
           = join [NL] ?ls"
    by (simp add: context_lines_def requirement_line_def comp_def)
  have "list_all (\<lambda>l. NL \<notin> set l) ?ls"
    using assms(2) by (simp add: list_all_iff requirement_line_def NL_notin_batch_value)
  moreover have "?ls \<noteq> []" using assms(1) by simp
  ultimately show ?thesis unfolding c by (simp add: split_lines_join)
qed

lemma build_question_set_not_Nil:
  "build_question_set summary = Inr qs \<Longrightarrow> qs \<noteq> []"
  using resolved_sequence [of summary] by (auto simp: CORE_QUESTIONS_def)

lemma split_lines_NL: "split_lines (a @ NL # b) = split_lines a @ split_lines b"
proof (induction a)
  case Nil
  then show ?case by simp
next
  case (Cons c cs)
  obtain l ls where l: "split_lines cs = l # ls"
    by (cases "split_lines cs") simp_all
  with Cons show ?case by simp
qed

lemma split_lines_join_sections:
  "split_lines (join [NL, NL] [x]) = split_lines x"
  "split_lines (join [NL, NL] (x # y # ys))
     = split_lines x @ [] # split_lines (join [NL, NL] (y # ys))"
proof -
  show "split_lines (join [NL, NL] [x]) = split_lines x" by simp
  have "join [NL, NL] (x # y # ys) = x @ NL # (NL # join [NL, NL] (y # ys))" by simp
  then show "split_lines (join [NL, NL] (x # y # ys))
     = split_lines x @ [] # split_lines (join [NL, NL] (y # ys))"
    by (simp only: split_lines_NL) simp
qed

text \<open>The lines of the composed document.\<close>

lemma document_lines:
  assumes "NL \<notin> set summary"
  shows "split_lines (compose_prompt summary answers)
     = [''You are an elite product + engineering execution assistant.'', [],
        ''## Project Summary'', [],
        summary, [],
        ''## Clarified Requirements'', []]
       @ split_lines (context_lines answers)
       @ [[], ''## Your Task'', [],
          ''Produce the best possible solution for this request in one response.'', [],
          ''### Must Do'', [],
          ''1. Restate the objective and constraints in a compact spec.'', [],
          ''2. Propose an execution plan optimized for speed and quality.'', [],
          ''3. Deliver the requested output in the required format.'', [],
          ''4. Address edge cases, risks, and trade-offs explicitly.'', [],
          ''5. Include validation steps/tests against the quality bar.'', [],
          ''6. Respect non-goals and avoid unnecessary scope expansion.'', [],
          ''### Output Requirements'', [],
          ''- Be concrete and implementation-ready.'', [],
          ''- Use assumptions only when unavoidable, and label them clearly.'', [],
          ''- If information is missing, provide a \"best default\" and explain why.'', [],
          ''- Keep the response efficient, high-signal, and free of fluff.'']"
proof -
  have s: "split_lines summary = [summary]" by (rule split_lines_no_NL [OF assms])
  show ?thesis
    unfolding compose_prompt_def split_lines_join_sections s
    by (simp add: split_lines_no_NL)
qed

text \<open>
  Claim C4. For every summary that is not empty after normalization and every payload that
  decodes to an object, the run ends normally with the composed document. The document is
  the fixed sections joined by blank lines, with the summary in the third place and the
  section "Clarified Requirements" in the fifth. Read line by line, the document holds,
  right after the heading \<^verbatim>\<open>## Clarified Requirements\<close> and a blank line and up to the
  blank line before \<^verbatim>\<open>## Your Task\<close>, one line \<^verbatim>\<open>- key: value\<close> per resolved question
  and nothing else, in the order of the resolved questions, where the value is
  \<^verbatim>\<open>Not specified\<close> for a key missing from the payload and the normalized text of the
  payload's value otherwise.
\<close>

theorem C4_requirement_lines:
  assumes "normalize summary_arg \<noteq> []" and "payload \<noteq> []"
    and "json_loads payload = Inr (JObject answers)"
  shows "\<exists>questions final.
       build_question_set (normalize summary_arg) = Inr questions
     \<and> main json_loads repr summary_arg (Some payload) inp
         = \<lparr>stdout = banner @ compose_prompt (normalize summary_arg) final @ [NL],
            stdin_rest = inp, status = None\<rparr>
     \<and> split_lines (context_lines final)
         = map (\<lambda>q. requirement_line (key q)
                   (case map_of answers (key q) of
                      None \<Rightarrow> ''Not specified''
                    | Some v \<Rightarrow> normalize (py_str repr v)))
             questions
     \<and> compose_prompt (normalize summary_arg) final
         = join [NL, NL]
             [''You are an elite product + engineering execution assistant.'',
              ''## Project Summary'',
              normalize summary_arg,
              ''## Clarified Requirements'',
              context_lines final,
              ''## Your Task'',
              ''Produce the best possible solution for this request in one response.'',
              ''### Must Do'',
              ''1. Restate the objective and constraints in a compact spec.'',
              ''2. Propose an execution plan optimized for speed and quality.'',
              ''3. Deliver the requested output in the required format.'',
              ''4. Address edge cases, risks, and trade-offs explicitly.'',
              ''5. Include validation steps/tests against the quality bar.'',
              ''6. Respect non-goals and avoid unnecessary scope expansion.'',
              ''### Output Requirements'',
              ''- Be concrete and implementation-ready.'',
              ''- Use assumptions only when unavoidable, and label them clearly.'',
              ''- If information is missing, provide a \"best default\" and explain why.'',
              ''- Keep the response efficient, high-signal, and free of fluff.'']
     \<and> split_lines (compose_prompt (normalize summary_arg) final)
         = [''You are an elite product + engineering execution assistant.'', [],
            ''## Project Summary'', [],
            normalize summary_arg, [],
            ''## Clarified Requirements'', []]
           @ map (\<lambda>q. requirement_line (key q)
                   (case map_of answers (key q) of
                      None \<Rightarrow> ''Not specified''
                    | Some v \<Rightarrow> normalize (py_str repr v)))
               questions
           @ [[], ''## Your Task'', [],
              ''Produce the best possible solution for this request in one response.'', [],
              ''### Must Do'', [],
              ''1. Restate the objective and constraints in a compact spec.'', [],
              ''2. Propose an execution plan optimized for speed and quality.'', [],
              ''3. Deliver the requested output in the required format.'', [],
              ''4. Address edge cases, risks, and trade-offs explicitly.'', [],
              ''5. Include validation steps/tests against the quality bar.'', [],
              ''6. Respect non-goals and avoid unnecessary scope expansion.'', [],
              ''### Output Requirements'', [],
              ''- Be concrete and implementation-ready.'', [],
              ''- Use assumptions only when unavoidable, and label them clearly.'', [],
              ''- If information is missing, provide a \"best default\" and explain why.'', [],
              ''- Keep the response efficient, high-signal, and free of fluff.'']"
proof -
  obtain qs where qs: "build_question_set (normalize summary_arg) = Inr qs"
    and d: "distinct (map key qs)" and nl: "list_all (\<lambda>q. NL \<notin> set (key q)) qs"
    using build_question_set_total by blast
  let ?final = "map (\<lambda>q. (key q, batch_value repr answers (key q))) qs"
  let ?lines = "map (\<lambda>q. requirement_line (key q)
                   (case map_of answers (key q) of
                      None \<Rightarrow> ''Not specified''
                    | Some v \<Rightarrow> normalize (py_str repr v))) qs"
  have m: "main json_loads repr summary_arg (Some payload) inp
         = \<lparr>stdout = banner @ compose_prompt (normalize summary_arg) ?final @ [NL],
            stdin_rest = inp, status = None\<rparr>"
    by (rule main_batch_object) (simp_all add: assms qs d)
  have "split_lines (context_lines ?final)
         = map (\<lambda>q. requirement_line (key q) (batch_value repr answers (key q))) qs"
    by (rule context_lines_split [OF build_question_set_not_Nil [OF qs] nl])
  then have s: "split_lines (context_lines ?final) = ?lines"
    by (simp add: batch_value_def)
  have c: "compose_prompt (normalize summary_arg) ?final
         = join [NL, NL]
             [''You are an elite product + engineering execution assistant.'',
              ''## Project Summary'',
              normalize summary_arg,
              ''## Clarified Requirements'',
              context_lines ?final,
              ''## Your Task'',
              ''Produce the best possible solution for this request in one response.'',
              ''### Must Do'',
              ''1. Restate the objective and constraints in a compact spec.'',
              ''2. Propose an execution plan optimized for speed and quality.'',
              ''3. Deliver the requested output in the required format.'',
              ''4. Address edge cases, risks, and trade-offs explicitly.'',
              ''5. Include validation steps/tests against the quality bar.'',
              ''6. Respect non-goals and avoid unnecessary scope expansion.'',
              ''### Output Requirements'',
              ''- Be concrete and implementation-ready.'',
              ''- Use assumptions only when unavoidable, and label them clearly.'',
              ''- If information is missing, provide a \"best default\" and explain why.'',
              ''- Keep the response efficient, high-signal, and free of fluff.'']"
    by (simp only: compose_prompt_def)
  have l: "split_lines (compose_prompt (normalize summary_arg) ?final)
         = [''You are an elite product + engineering execution assistant.'', [],
            ''## Project Summary'', [],
            normalize summary_arg, [],
            ''## Clarified Requirements'', []]
           @ ?lines
           @ [[], ''## Your Task'', [],
              ''Produce the best possible solution for this request in one response.'', [],
              ''### Must Do'', [],
              ''1. Restate the objective and constraints in a compact spec.'', [],
              ''2. Propose an execution plan optimized for speed and quality.'', [],
              ''3. Deliver the requested output in the required format.'', [],
              ''4. Address edge cases, risks, and trade-offs explicitly.'', [],
              ''5. Include validation steps/tests against the quality bar.'', [],
              ''6. Respect non-goals and avoid unnecessary scope expansion.'', [],
              ''### Output Requirements'', [],
              ''- Be concrete and implementation-ready.'', [],
              ''- Use assumptions only when unavoidable, and label them clearly.'', [],
              ''- If information is missing, provide a \"best default\" and explain why.'', [],
              ''- Keep the response efficient, high-signal, and free of fluff.'']"
    unfolding document_lines [OF NL_notin_normalize] s by (rule refl)
  from qs m s c l show ?thesis by blast
qed

theorem C4_requirement_lines_witness:
  "normalize ''todo app'' \<noteq> []
   \<and> ''{\"goal\": \"Ship  it\", \"owner\": \"me\"}'' \<noteq> []
   \<and> json_loads_sample ''{\"goal\": \"Ship  it\", \"owner\": \"me\"}''
       = Inr (JObject [(''goal'', JString ''Ship  it''), (''owner'', JString ''me'')])
   \<and> (\<exists>final.
         main json_loads_sample no_repr ''todo app''
           (Some ''{\"goal\": \"Ship  it\", \"owner\": \"me\"}'') []
         = \<lparr>stdout = banner @ compose_prompt ''todo app'' final @ [NL],
            stdin_rest = [], status = None\<rparr>
       \<and> split_lines (context_lines final)
         = [''- goal: Ship it'', ''- audience: Not specified'',
            ''- output_format: Not specified'', ''- constraints: Not specified'',
            ''- quality_bar: Not specified'', ''- non_goals: Not specified'',
            ''- data_inputs: Not specified'', ''- edge_cases: Not specified'',
            ''- tone: Not specified'', ''- examples: Not specified'']
       \<and> split_lines (compose_prompt ''todo app'' final)
         = [''You are an elite product + engineering execution assistant.'', [],
            ''## Project Summary'', [],
            ''todo app'', [],
            ''## Clarified Requirements'', []]
           @ [''- goal: Ship it'', ''- audience: Not specified'',
            ''- output_format: Not specified'', ''- constraints: Not specified'',
            ''- quality_bar: Not specified'', ''- non_goals: Not specified'',
            ''- data_inputs: Not specified'', ''- edge_cases: Not specified'',
            ''- tone: Not specified'', ''- examples: Not specified'']
           @ [[], ''## Your Task'', [],
              ''Produce the best possible solution for this request in one response.'', [],
              ''### Must Do'', [],
              ''1. Restate the objective and constraints in a compact spec.'', [],
              ''2. Propose an execution plan optimized for speed and quality.'', [],
              ''3. Deliver the requested output in the required format.'', [],
              ''4. Address edge cases, risks, and trade-offs explicitly.'', [],
              ''5. Include validation steps/tests against the quality bar.'', [],
              ''6. Respect non-goals and avoid unnecessary scope expansion.'', [],
              ''### Output Requirements'', [],
              ''- Be concrete and implementation-ready.'', [],
              ''- Use assumptions only when unavoidable, and label them clearly.'', [],
              ''- If information is missing, provide a \"best default\" and explain why.'', [],
              ''- Keep the response efficient, high-signal, and free of fluff.''])"
proof -
  let ?p = "''{\"goal\": \"Ship  it\", \"owner\": \"me\"}''"
  let ?a = "[(''goal'', JString ''Ship  it''), (''owner'', JString ''me'')]"
  have h1: "normalize ''todo app'' \<noteq> []" by (simp add: normalize_todo_app)
  have h2: "?p \<noteq> []" by simp
  have h3: "json_loads_sample ?p = Inr (JObject ?a)" by (simp add: json_loads_sample_def)
  have v: "normalize ''Ship  it'' = ''Ship it''"
    by (simp add: normalize_def strip_def isspace_def)
  have q: "build_question_set (normalize ''todo app'') = Inr (CORE_QUESTIONS @ EXTRA_QUESTIONS)"
    by (simp add: normalize_todo_app questions_todo_app)
  have e: "map (\<lambda>q. requirement_line (key q)
                   (case map_of ?a (key q) of
                      None \<Rightarrow> ''Not specified''
                    | Some v \<Rightarrow> normalize (py_str no_repr v)))
             (CORE_QUESTIONS @ EXTRA_QUESTIONS)
         = [''- goal: Ship it'', ''- audience: Not specified'',
            ''- output_format: Not specified'', ''- constraints: Not specified'',
            ''- quality_bar: Not specified'', ''- non_goals: Not specified'',
            ''- data_inputs: Not specified'', ''- edge_cases: Not specified'',
            ''- tone: Not specified'', ''- examples: Not specified'']"
    by (simp add: CORE_QUESTIONS_def EXTRA_QUESTIONS_def requirement_line_def py_str_def v)
  from C4_requirement_lines [where json_loads = json_loads_sample and payload = ?p
         and answers = ?a and summary_arg = "''todo app''" and repr = no_repr and inp = "[]",
         OF h1 h2 h3]
  obtain questions final where
    r: "build_question_set (normalize ''todo app'') = Inr questions"
       "main json_loads_sample no_repr ''todo app'' (Some ?p) []
         = \<lparr>stdout = banner @ compose_prompt (normalize ''todo app'') final @ [NL],
            stdin_rest = [], status = None\<rparr>"
       "split_lines (context_lines final)
         = map (\<lambda>q. requirement_line (key q)
                   (case map_of ?a (key q) of
                      None \<Rightarrow> ''Not specified''
                    | Some v \<Rightarrow> normalize (py_str no_repr v)))
             questions"
       "split_lines (compose_prompt (normalize ''todo app'') final)
         = [''You are an elite product + engineering execution assistant.'', [],
            ''## Project Summary'', [],
            normalize ''todo app'', [],
            ''## Clarified Requirements'', []]
           @ map (\<lambda>q. requirement_line (key q)
                   (case map_of ?a (key q) of
                      None \<Rightarrow> ''Not specified''
                    | Some v \<Rightarrow> normalize (py_str no_repr v)))
               questions
           @ [[], ''## Your Task'', [],
              ''Produce the best possible solution for this request in one response.'', [],
              ''### Must Do'', [],
              ''1. Restate the objective and constraints in a compact spec.'', [],
              ''2. Propose an execution plan optimized for speed and quality.'', [],
              ''3. Deliver the requested output in the required format.'', [],
              ''4. Address edge cases, risks, and trade-offs explicitly.'', [],
              ''5. Include validation steps/tests against the quality bar.'', [],
              ''6. Respect non-goals and avoid unnecessary scope expansion.'', [],
              ''### Output Requirements'', [],
              ''- Be concrete and implementation-ready.'', [],
              ''- Use assumptions only when unavoidable, and label them clearly.'', [],
              ''- If information is missing, provide a \"best default\" and explain why.'', [],
              ''- Keep the response efficient, high-signal, and free of fluff.'']"
    by blast
  from r(1) q have qq: "questions = CORE_QUESTIONS @ EXTRA_QUESTIONS" by simp
  have "main json_loads_sample no_repr ''todo app'' (Some ?p) []
         = \<lparr>stdout = banner @ compose_prompt ''todo app'' final @ [NL],
            stdin_rest = [], status = None\<rparr>
       \<and> split_lines (context_lines final)
         = [''- goal: Ship it'', ''- audience: Not specified'',
            ''- output_format: Not specified'', ''- constraints: Not specified'',
            ''- quality_bar: Not specified'', ''- non_goals: Not specified'',
            ''- data_inputs: Not specified'', ''- edge_cases: Not specified'',
            ''- tone: Not specified'', ''- examples: Not specified'']
       \<and> split_lines (compose_prompt ''todo app'' final)
         = [''You are an elite product + engineering execution assistant.'', [],
            ''## Project Summary'', [],
            ''todo app'', [],
            ''## Clarified Requirements'', []]
           @ [''- goal: Ship it'', ''- audience: Not specified'',
            ''- output_format: Not specified'', ''- constraints: Not specified'',
            ''- quality_bar: Not specified'', ''- non_goals: Not specified'',
            ''- data_inputs: Not specified'', ''- edge_cases: Not specified'',
            ''- tone: Not specified'', ''- examples: Not specified'']
           @ [[], ''## Your Task'', [],
              ''Produce the best possible solution for this request in one response.'', [],
              ''### Must Do'', [],
              ''1. Restate the objective and constraints in a compact spec.'', [],
              ''2. Propose an execution plan optimized for speed and quality.'', [],
              ''3. Deliver the requested output in the required format.'', [],
              ''4. Address edge cases, risks, and trade-offs explicitly.'', [],
              ''5. Include validation steps/tests against the quality bar.'', [],
              ''6. Respect non-goals and avoid unnecessary scope expansion.'', [],
              ''### Output Requirements'', [],
              ''- Be concrete and implementation-ready.'', [],
              ''- Use assumptions only when unavoidable, and label them clearly.'', [],
              ''- If information is missing, provide a \"best default\" and explain why.'', [],
              ''- Keep the response efficient, high-signal, and free of fluff.'']"
    using r(2-4) unfolding qq e normalize_todo_app by simp
  then show ?thesis using h1 h2 h3 by blast
qed

lemma batch_stdout_ignores_stdin:
  assumes "payload \<noteq> []"
  shows "stdout (main json_loads repr summary_arg (Some payload) inp1)
       = stdout (main json_loads repr summary_arg (Some payload) inp2)"
proof (cases "normalize summary_arg = []")
  case True
  then show ?thesis by (simp add: main_empty_summary)
next
  case False
  obtain qs where qs: "build_question_set (normalize summary_arg) = Inr qs"
    using build_question_set_total by blast
  show ?thesis
    unfolding main_batch [OF False assms qs]
    by (simp add: finish_def split: sum.splits)
qed

text \<open>
  Claim C9. Composition is a function of the summary and the answer set alone: equal
  inputs give equal documents. A run in batch mode writes the same text for the same
  summary and payload, whatever the standard input holds.
\<close>

theorem C9_compose_deterministic:
  assumes "summary1 = summary2" and "answers1 = answers2"
  shows "compose_prompt summary1 answers1 = compose_prompt summary2 answers2
     \<and> (payload \<noteq> [] \<longrightarrow>
          stdout (main json_loads repr summary1 (Some payload) inp1)
            = stdout (main json_loads repr summary2 (Some payload) inp2))"
  using assms batch_stdout_ignores_stdin [of payload json_loads repr summary1 inp1 inp2]
  by simp

theorem C9_compose_deterministic_witness:
  "compose_prompt ''Build a web API for tracking tasks''
     [(''goal'', ''a''), (''audience'', ''b''), (''output_format'', ''c''),
      (''constraints'', ''d''), (''quality_bar'', ''e''), (''non_goals'', ''f''),
      (''ui_framework'', ''g''), (''deployment_target'', ''h''), (''api_style'', ''i''),
      (''auth_requirements'', ''j''), (''data_inputs'', ''k''), (''edge_cases'', ''l''),
      (''tone'', ''m''), (''examples'', ''n'')]
   = compose_prompt ''Build a web API for tracking tasks''
     [(''goal'', ''a''), (''audience'', ''b''), (''output_format'', ''c''),
      (''constraints'', ''d''), (''quality_bar'', ''e''), (''non_goals'', ''f''),
      (''ui_framework'', ''g''), (''deployment_target'', ''h''), (''api_style'', ''i''),
      (''auth_requirements'', ''j''), (''data_inputs'', ''k''), (''edge_cases'', ''l''),
      (''tone'', ''m''), (''examples'', ''n'')]
   \<and> stdout (main json_loads_sample no_repr ''Build a web API for tracking tasks''
               (Some ''{\"goal\": \"Ship it\"}'') [])
     = stdout (main json_loads_sample no_repr ''Build a web API for tracking tasks''
               (Some ''{\"goal\": \"Ship it\"}'') [''x''])"
proof -
  have p: "''{\"goal\": \"Ship it\"}'' \<noteq> []" by simp
  from C9_compose_deterministic [OF refl refl, where payload = "''{\"goal\": \"Ship it\"}''"
         and json_loads = json_loads_sample and repr = no_repr
         and ?summary1.0 = "''Build a web API for tracking tasks''"
         and ?inp1.0 = "[]" and ?inp2.0 = "[''x'']"] p
  show ?thesis by simp
qed

lemma agree_on_batch_value:
  "agree_on repr keys answers1 answers2 \<Longrightarrow> k \<in> set keys \<Longrightarrow>
   batch_value repr answers1 k = batch_value repr answers2 k"
  by (auto simp: agree_on_def list_all_iff batch_value_def split: option.splits)

text \<open>
  Claim C10. Two payloads that decode to objects and agree, after coercion to text and
  normalization, on every key of the resolved question sequence give the same run; the
  document is composed from the resolved keys only, so any other key of a payload leaves
  no trace.
\<close>

theorem C10_other_keys_ignored:
  assumes "normalize summary_arg \<noteq> []"
    and "build_question_set (normalize summary_arg) = Inr questions"
    and "payload1 \<noteq> []" and "json_loads payload1 = Inr (JObject answers1)"
    and "payload2 \<noteq> []" and "json_loads payload2 = Inr (JObject answers2)"
    and "agree_on repr (map key questions) answers1 answers2"
  shows "main json_loads repr summary_arg (Some payload1) inp
       = main json_loads repr summary_arg (Some payload2) inp
     \<and> stdout (main json_loads repr summary_arg (Some payload1) inp)
       = banner
         @ compose_prompt (normalize summary_arg)
             (map (\<lambda>q. (key q, case map_of answers1 (key q) of
                                  None \<Rightarrow> ''Not specified''
                                | Some v \<Rightarrow> normalize (py_str repr v))) questions)
         @ [NL]"
proof -
  have d: "distinct (map key questions)"
    using build_question_set_total [of "normalize summary_arg"] assms(2) by auto
  have m1: "main json_loads repr summary_arg (Some payload1) inp
     = \<lparr>stdout = banner
                @ compose_prompt (normalize summary_arg)
                    (map (\<lambda>q. (key q, batch_value repr answers1 (key q))) questions)
                @ [NL],
        stdin_rest = inp, status = None\<rparr>"
    by (rule main_batch_object) (simp_all add: assms d)
  have m2: "main json_loads repr summary_arg (Some payload2) inp
     = \<lparr>stdout = banner
                @ compose_prompt (normalize summary_arg)
                    (map (\<lambda>q. (key q, batch_value repr answers2 (key q))) questions)
                @ [NL],
        stdin_rest = inp, status = None\<rparr>"
    by (rule main_batch_object) (simp_all add: assms d)
  have eq: "map (\<lambda>q. (key q, batch_value repr answers1 (key q))) questions
      = map (\<lambda>q. (key q, batch_value repr answers2 (key q))) questions"
    using agree_on_batch_value [OF assms(7)] by simp
  have b: "(\<lambda>q. (key q, batch_value repr answers1 (key q)))
         = (\<lambda>q. (key q, case map_of answers1 (key q) of
                                  None \<Rightarrow> ''Not specified''
                                | Some v \<Rightarrow> normalize (py_str repr v)))"
    by (simp add: batch_value_def)
  have "main json_loads repr summary_arg (Some payload1) inp
       = main json_loads repr summary_arg (Some payload2) inp"
    unfolding m1 m2 eq by (rule refl)
  moreover have "stdout (main json_loads repr summary_arg (Some payload1) inp)
       = banner
         @ compose_prompt (normalize summary_arg)
             (map (\<lambda>q. (key q, batch_value repr answers1 (key q))) questions)
         @ [NL]"
    unfolding m1 by simp
  ultimately show ?thesis unfolding b by blast
qed

theorem C10_other_keys_ignored_witness:
  "normalize ''todo app'' \<noteq> []
   \<and> build_question_set (normalize ''todo app'') = Inr (CORE_QUESTIONS @ EXTRA_QUESTIONS)
   \<and> json_loads_sample ''{\"goal\": \"Ship  it\", \"owner\": \"me\"}''
       = Inr (JObject [(''goal'', JString ''Ship  it''), (''owner'', JString ''me'')])
   \<and> json_loads_sample ''{\"goal\": \"Ship it\"}'' = Inr (JObject [(''goal'', JString ''Ship it'')])
   \<and> agree_on no_repr (map key (CORE_QUESTIONS @ EXTRA_QUESTIONS))
         [(''goal'', JString ''Ship  it''), (''owner'', JString ''me'')]
         [(''goal'', JString ''Ship it'')]
   \<and> main json_loads_sample no_repr ''todo app''
         (Some ''{\"goal\": \"Ship  it\", \"owner\": \"me\"}'') []
     = main json_loads_sample no_repr ''todo app'' (Some ''{\"goal\": \"Ship it\"}'') []"
proof -
  let ?p1 = "''{\"goal\": \"Ship  it\", \"owner\": \"me\"}''"
  let ?p2 = "''{\"goal\": \"Ship it\"}''"
  let ?a1 = "[(''goal'', JString ''Ship  it''), (''owner'', JString ''me'')]"
  let ?a2 = "[(''goal'', JString ''Ship it'')]"
  have h1: "normalize ''todo app'' \<noteq> []" by (simp add: normalize_todo_app)
  have h2: "build_question_set (normalize ''todo app'') = Inr (CORE_QUESTIONS @ EXTRA_QUESTIONS)"
    by (simp add: normalize_todo_app questions_todo_app)
  have h3: "?p1 \<noteq> []" "?p2 \<noteq> []" by simp_all
  have h4: "json_loads_sample ?p1 = Inr (JObject ?a1)" by (simp add: json_loads_sample_def)
  have h5: "json_loads_sample ?p2 = Inr (JObject ?a2)" by (simp add: json_loads_sample_def)
  have v: "normalize ''Ship  it'' = ''Ship it''" "normalize ''Ship it'' = ''Ship it''"
    by (simp_all add: normalize_def strip_def isspace_def)
  have h6: "agree_on no_repr (map key (CORE_QUESTIONS @ EXTRA_QUESTIONS)) ?a1 ?a2"
    by (simp add: agree_on_def CORE_QUESTIONS_def EXTRA_QUESTIONS_def py_str_def v)
  from C10_other_keys_ignored [where json_loads = json_loads_sample and repr = no_repr
         and summary_arg = "''todo app''" and questions = "CORE_QUESTIONS @ EXTRA_QUESTIONS"
         and ?payload1.0 = ?p1 and ?payload2.0 = ?p2 and ?answers1.0 = ?a1 and ?answers2.0 = ?a2
         and inp = "[]"] h1 h2 h3 h4 h5 h6
  show ?thesis by simp
qed

end
